theory Spec2Isabelle
  imports Complex_Main
begin

section \<open>The image generation pipeline (src/api/controllers/sessions.ts, lines 388-610)\<close>

text \<open>
  The pipeline is \<open>generateImage\<close> (the retry orchestrator) on top of
  \<open>postToStableDiffusion\<close> (one HTTP call to the text-to-image service),
  \<open>saveImageLocally\<close> and \<open>uploadImage\<close> (the blob store). Everything the code
  does to the outside (HTTP posts, file and bucket writes, database rows, websocket
  messages, identifiers drawn) is threaded through an explicit \<open>world\<close>; what the outside
  answers (the HTTP responses, the identifiers, the process environment, whether a write
  to the file system or to the bucket goes through) is an \<open>env\<close>.

  \<open>request.count\<close> and \<open>tries\<close> are JavaScript numbers: they are rationals here, so a
  fractional count is a request like any other. Rounding, NaN and the infinities of
  doubles are not modelled. An exception that leaves a function is a value \<open>Inl\<close> of the
  type \<open>exn\<close>; for the \<open>async\<close> functions that is the rejection of their promise.
\<close>

subsection \<open>Data\<close>

datatype finishReason = SUCCESS | CONTENT_FILTERED | ERROR

record artifact =
  base64 :: string
  seed :: int
  finishReason :: finishReason

text \<open>
  \<open>artifacts\<close> is whatever \<open>response.data.artifacts\<close> was: \<open>Some as\<close> for an array,
  \<open>None\<close> for \<open>undefined\<close> or any other value that has no \<open>filter\<close> method.
\<close>

record GenerationResponse =
  artifacts :: "artifact list option"
  updatedPrompt :: "string option"

record linking_ids =
  sessionId :: "int option"
  conjurationId :: "int option"
  characterId :: "int option"

record ImageRequest =
  userId :: int
  prompt :: string
  count :: rat
  negativePrompt :: "string option"
  stylePreset :: "string option"
  linking :: "linking_ids option"

text \<open>The row \<open>prisma.image.create\<close> writes; \<open>img_id\<close> is the key the database assigns.\<close>

record image_row =
  img_id :: int
  img_userId :: int
  img_uri :: string
  img_prompt :: string
  img_negativePrompt :: "string option"
  img_stylePreset :: string
  img_sessionId :: "int option"
  img_conjurationId :: "int option"
  img_characterId :: "int option"

datatype WebSocketEvent =
  ImagePromptRephrased | ImageCreated | ImageFiltered | ImageGenerationDone | ImageError

datatype payload =
  RephrasedPrompt string | CreatedImage image_row | Message string | EmptyObject

record notification =
  recipient :: int
  event :: WebSocketEvent
  body :: payload

record text_prompt =
  prompt_text :: string
  weight :: int

text \<open>One \<open>axios.post\<close>: the address, the JSON body and the headers.\<close>

record generation_post =
  post_url :: string
  text_prompts :: "text_prompt list"
  cfg_scale :: int
  height :: int
  width :: int
  steps :: int
  samples :: rat
  style_preset :: string
  content_type :: string
  accept :: string
  authorization :: string

record put_object =
  Bucket :: string
  Key :: string
  Body :: string
  ContentEncoding :: string
  ContentType :: string
  ACL :: string

text \<open>
  What \<open>await axios.post\<close> comes back with: the promise rejects (the \<open>catch\<close> branch of
  lines 566-573), or it resolves with a response whose \<open>data\<close> is \<open>null\<close> or
  \<open>undefined\<close> (\<open>NoData\<close>), or with a \<open>data\<close> whose field \<open>artifacts\<close> is read.
\<close>

datatype response_data = NoData | Data "artifact list option"

datatype axios_result = Rejected | Resolved response_data

text \<open>The exceptions that can leave the pipeline.\<close>

datatype exn = Error string | TypeError | FsError | S3ServiceException

text \<open>
  The surroundings of a run. \<open>axios_post env k p\<close> is what the \<open>k\<close>-th HTTP post of the
  run (counted from 0) comes back with when its request is \<open>p\<close>. \<open>uuidv4 env k\<close> is the
  \<open>k\<close>-th identifier drawn, \<open>image_row_id env k\<close> the key the database gives the row
  created when the table holds \<open>k\<close> rows. \<open>mkdirSync_ok env d\<close> says whether creating the
  directory \<open>d\<close> goes through, \<open>writeFileSync_ok env k f\<close> whether the \<open>k\<close>-th file write
  of the run, to the path \<open>f\<close>, does, and \<open>s3_send_ok env k c\<close> whether the \<open>k\<close>-th upload
  does; where they say no, the call throws.
\<close>

record env =
  apiKey :: "string option"
  apiHost :: string
  isLocalDevelopment :: bool
  DATA_DIR :: "string option"
  API_URL :: "string option"
  uuidv4 :: "nat \<Rightarrow> string"
  axios_post :: "nat \<Rightarrow> generation_post \<Rightarrow> axios_result"
  image_row_id :: "nat \<Rightarrow> int"
  mkdirSync_ok :: "string \<Rightarrow> bool"
  writeFileSync_ok :: "nat \<Rightarrow> string \<Rightarrow> bool"
  s3_send_ok :: "nat \<Rightarrow> put_object \<Rightarrow> bool"

text \<open>
  Every effect, in the order it happened. \<open>sdCalls\<close> is the trace of the invocations of
  \<open>postToStableDiffusion\<close>: the count asked for and the depth argument. File and bucket
  contents are kept as the base64 text whose decoding is written; only writes that went
  through are listed.
\<close>

record world =
  sdCalls :: "(rat \<times> int) list"
  httpPosts :: "generation_post list"
  uuidsDrawn :: nat
  directories :: "string list"
  fileWrites :: "(string \<times> string) list"
  bucketPuts :: "put_object list"
  images :: "image_row list"
  notifications :: "notification list"

text \<open>The local variables of \<open>generateImage\<close> that its loop updates.\<close>

record locals =
  urls :: "string list"
  validImageCount :: nat
  tries :: rat

text \<open>
  How a pass through the loop body, and the loop, can end: an exception left it, line 457
  returned \<open>undefined\<close>, or it ran to its end. Each carries the locals and the world as
  they were left.
\<close>

datatype pass =
  Threw exn "locals \<times> world"
  | ReturnedUndefined "locals \<times> world"
  | Completed "locals \<times> world"

subsection \<open>JavaScript coercions\<close>

text \<open>\<open>!s\<close> is false, and \<open>s || d\<close> is \<open>s\<close>, exactly when \<open>s\<close> is a non-empty string.\<close>

definition truthy :: "string option \<Rightarrow> bool" where
  "truthy s = (case s of None \<Rightarrow> False | Some x \<Rightarrow> x \<noteq> [])"

text \<open>A value inside a template literal: \<open>undefined\<close> prints as its name.\<close>

definition template :: "string option \<Rightarrow> string" where
  "template s = (case s of None \<Rightarrow> ''undefined'' | Some x \<Rightarrow> x)"

subsection \<open>Collaborators outside src/\<close>

text \<open>
  Modelled from the spec: \<open>sendWebsocketMessage\<close> of ./websockets, the notification sink
  (4.4): a fire-and-forget push of an event of one of the five kinds, with its payload, to
  the user's connections. The model appends the message to the log of notifications.
\<close>

definition sendWebsocketMessage :: "int \<Rightarrow> WebSocketEvent \<Rightarrow> payload \<Rightarrow> world \<Rightarrow> world" where
  "sendWebsocketMessage uid ev pl w =
     w\<lparr>notifications := notifications w @ [\<lparr>recipient = uid, event = ev, body = pl\<rparr>]\<rparr>"

text \<open>
  Modelled from the spec: \<open>prisma.image.create\<close>, the artifact recorder (4.5): pure
  persistence that returns the persisted record with its generated identifier. The model
  appends the row to the table.
\<close>

definition prisma_image_create :: "env \<Rightarrow> image_row \<Rightarrow> world \<Rightarrow> image_row \<times> world" where
  "prisma_image_create e d w =
     (let created = d\<lparr>img_id := image_row_id e (length (images w))\<rparr>
      in (created, w\<lparr>images := images w @ [created]\<rparr>))"

subsection \<open>The blob store (lines 581-610)\<close>

text \<open>
  \<open>saveImageLocally\<close>, lines 581-592. \<open>fs.existsSync\<close> is false for the empty path, and
  \<open>fs.mkdirSync\<close> of the empty path throws (ENOENT); any other directory is created when
  the surroundings let it. Neither call is inside a \<open>try\<close>.
\<close>

definition saveImageLocally ::
  "env \<Rightarrow> string \<Rightarrow> string \<Rightarrow> world \<Rightarrow> (exn + string) \<times> world" where
  "saveImageLocally e imageId imageBase64 w =
     (let dataDir = (case DATA_DIR e of None \<Rightarrow> ''./public/images'' | Some d \<Rightarrow> d);
          existsSync = (dataDir \<noteq> [] \<and> dataDir \<in> set (directories w))
      in if \<not> existsSync \<and> (dataDir = [] \<or> \<not> mkdirSync_ok e dataDir) then (Inl FsError, w)
         else
           let w1 = (if \<not> existsSync then w\<lparr>directories := directories w @ [dataDir]\<rparr> else w);
               file = dataDir @ ''/'' @ imageId @ ''.png''
           in if \<not> writeFileSync_ok e (length (fileWrites w1)) file then (Inl FsError, w1)
              else (Inr (template (API_URL e) @ ''/images/'' @ imageId @ ''.png''),
                    w1\<lparr>fileWrites := fileWrites w1 @ [(file, imageBase64)]\<rparr>))"

text \<open>\<open>uploadImage\<close>, lines 594-610: a rejected \<open>s3.send\<close> is not caught.\<close>

definition uploadImage ::
  "env \<Rightarrow> string \<Rightarrow> string \<Rightarrow> world \<Rightarrow> (exn + string) \<times> world" where
  "uploadImage e imageId imageBase64 w =
     (let command = \<lparr>Bucket = ''mythweaver-assets'', Key = imageId @ ''.png'',
                     Body = imageBase64, ContentEncoding = ''base64'',
                     ContentType = ''image/png'', ACL = ''public-read''\<rparr>
      in if \<not> s3_send_ok e (length (bucketPuts w)) command then (Inl S3ServiceException, w)
         else (Inr (''https://assets.mythweaver.co/'' @ Key command),
               w\<lparr>bucketPuts := bucketPuts w @ [command]\<rparr>))"

subsection \<open>The generation client (lines 525-578)\<close>

definition engineId :: string where
  "engineId = ''stable-diffusion-v1-6''"

definition image_error_message :: string where
  "image_error_message = ''There was an error generating your image. Your prompt was rejected by the content filtering system. Please try again.''"

definition generation_request :: "env \<Rightarrow> ImageRequest \<Rightarrow> string \<Rightarrow> generation_post" where
  "generation_request e request preset =
     \<lparr>post_url = apiHost e @ ''/v1/generation/'' @ engineId @ ''/text-to-image'',
      text_prompts =
        [\<lparr>prompt_text = prompt request, weight = 1\<rparr>,
         \<lparr>prompt_text = ''blurry, bad, '' @ template (negativePrompt request), weight = - 1\<rparr>],
      cfg_scale = 7, height = 1024, width = 1024, steps = 30,
      samples = count request, style_preset = preset,
      content_type = ''application/json'', accept = ''application/json'',
      authorization = ''Bearer '' @ template (apiKey e)\<rparr>"

text \<open>
  Only \<open>axios.post\<close> is inside the \<open>try\<close>: reading \<open>response.data.artifacts\<close> at line
  576 is not, and throws a TypeError when \<open>data\<close> is \<open>null\<close> or \<open>undefined\<close>.
\<close>

definition postToStableDiffusion ::
  "env \<Rightarrow> ImageRequest \<Rightarrow> string \<Rightarrow> string list \<Rightarrow> int \<Rightarrow> world
     \<Rightarrow> (exn + GenerationResponse option) \<times> world" where
  "postToStableDiffusion e request preset promptHistory depth w =
     (let w0 = w\<lparr>sdCalls := sdCalls w @ [(count request, depth)]\<rparr> in
      if depth > 5 then (Inr None, w0)
      else
        let p = generation_request e request preset;
            w1 = w0\<lparr>httpPosts := httpPosts w0 @ [p]\<rparr>
        in case axios_post e (length (httpPosts w0)) p of
             Rejected \<Rightarrow>
               (Inr None, sendWebsocketMessage (userId request) ImageError
                            (Message image_error_message) w1)
           | Resolved NoData \<Rightarrow> (Inl TypeError, w1)
           | Resolved (Data arts) \<Rightarrow>
               (Inr (Some \<lparr>artifacts = arts,
                           updatedPrompt = (if depth = 0 then None else Some (prompt request))\<rparr>),
                w1))"

subsection \<open>The retry orchestrator (lines 435-523)\<close>

definition maxImageTries :: rat where
  "maxImageTries = 30"

definition image_filtered_message :: string where
  "image_filtered_message = ''The image generation service was unable to generate an image that met the criteria. Please try again.''"

text \<open>
  The body of the \<open>for (const image of artifacts)\<close> loop after its \<open>break\<close> test,
  lines 476-505: draw an identifier, store the bytes, push the URL, create the row, notify,
  count. An exception of the blob store leaves it before the URL is pushed.
\<close>

definition accept_image ::
  "env \<Rightarrow> ImageRequest \<Rightarrow> string \<Rightarrow> artifact \<Rightarrow> locals \<times> world
     \<Rightarrow> exn \<times> (locals \<times> world) + locals \<times> world" where
  "accept_image e request preset img lw =
     (case lw of (l, w) \<Rightarrow>
        let imageId = uuidv4 e (uuidsDrawn w);
            w1 = w\<lparr>uuidsDrawn := Suc (uuidsDrawn w)\<rparr>
        in case (if \<not> isLocalDevelopment e then uploadImage e imageId (base64 img) w1
                 else saveImageLocally e imageId (base64 img) w1) of
             (Inl x, w2) \<Rightarrow> Inl (x, (l, w2))
           | (Inr url, w2) \<Rightarrow>
               let l1 = l\<lparr>urls := urls l @ [url]\<rparr>;
                   (createdImage, w3) =
                      prisma_image_create e
                        \<lparr>img_id = 0, img_userId = userId request, img_uri = url,
                         img_prompt = prompt request, img_negativePrompt = negativePrompt request,
                         img_stylePreset = preset,
                         img_sessionId =
                           (case linking request of None \<Rightarrow> None | Some k \<Rightarrow> sessionId k),
                         img_conjurationId =
                           (case linking request of None \<Rightarrow> None | Some k \<Rightarrow> conjurationId k),
                         img_characterId =
                           (case linking request of None \<Rightarrow> None | Some k \<Rightarrow> characterId k)\<rparr>
                        w2;
                   w4 = sendWebsocketMessage (userId request) ImageCreated
                          (CreatedImage createdImage) w3
               in Inr (l1\<lparr>validImageCount := Suc (validImageCount l1)\<rparr>, w4))"

text \<open>
  The \<open>for (const image of artifacts)\<close> loop, lines 472-506: it stops at the first image
  met with \<open>validImageCount === request.count\<close>, and at the first exception.
\<close>

fun process_artifacts ::
  "env \<Rightarrow> ImageRequest \<Rightarrow> string \<Rightarrow> artifact list \<Rightarrow> locals \<times> world
     \<Rightarrow> exn \<times> (locals \<times> world) + locals \<times> world" where
  "process_artifacts e request preset [] lw = Inr lw"
| "process_artifacts e request preset (img # rest) lw =
     (if of_nat (validImageCount (fst lw)) = count request then Inr lw
      else case accept_image e request preset img lw of
             Inl thrown \<Rightarrow> Inl thrown
           | Inr lw1 \<Rightarrow> process_artifacts e request preset rest lw1)"

text \<open>Lines 460-466: the notification of a rephrased prompt, sent when the field is truthy.\<close>

definition notify_rephrased :: "ImageRequest \<Rightarrow> GenerationResponse \<Rightarrow> world \<Rightarrow> world" where
  "notify_rephrased request imageResponse w =
     (if truthy (updatedPrompt imageResponse)
      then sendWebsocketMessage (userId request) ImagePromptRephrased
             (RephrasedPrompt (the (updatedPrompt imageResponse))) w
      else w)"

text \<open>
  One pass through the body of the \<open>do ... while\<close>, lines 446-506. Calling \<open>filter\<close> on
  an \<open>artifacts\<close> that is no array throws a TypeError (line 468).
\<close>

definition loop_body :: "env \<Rightarrow> ImageRequest \<Rightarrow> string \<Rightarrow> locals \<times> world \<Rightarrow> pass" where
  "loop_body e request preset lw =
     (case lw of (l, w) \<Rightarrow>
        let l1 = l\<lparr>tries := tries l + count request\<rparr>;
            rq = request\<lparr>count := count request - of_nat (validImageCount l1)\<rparr>
        in case postToStableDiffusion e rq preset [] 0 w of
             (Inl x, w1) \<Rightarrow> Threw x (l1, w1)
           | (Inr None, w1) \<Rightarrow> ReturnedUndefined (l1, w1)
           | (Inr (Some imageResponse), w1) \<Rightarrow>
               let w2 = notify_rephrased request imageResponse w1
               in case artifacts imageResponse of
                    None \<Rightarrow> Threw TypeError (l1, w2)
                  | Some as \<Rightarrow>
                      (case process_artifacts e request preset
                              (filter (\<lambda>a. finishReason a = SUCCESS) as) (l1, w2) of
                         Inl (x, lw1) \<Rightarrow> Threw x lw1
                       | Inr lw1 \<Rightarrow> Completed lw1))"

text \<open>Where a pass, or the inner loop, was left.\<close>

fun state_of :: "pass \<Rightarrow> locals \<times> world" where
  "state_of (Threw x lw) = lw"
| "state_of (ReturnedUndefined lw) = lw"
| "state_of (Completed lw) = lw"

definition left_at :: "exn \<times> (locals \<times> world) + locals \<times> world \<Rightarrow> locals \<times> world" where
  "left_at r = (case r of Inl (x, lw) \<Rightarrow> lw | Inr lw \<Rightarrow> lw)"

lemma accept_image_tries:
  "tries (fst (left_at (accept_image e request preset img lw))) = tries (fst lw)"
  by (simp add: accept_image_def left_at_def Let_def split: prod.splits sum.splits)

lemma process_artifacts_tries:
  "tries (fst (left_at (process_artifacts e request preset arts lw))) = tries (fst lw)"
proof (induction arts arbitrary: lw)
  case Nil
  show ?case by (simp add: left_at_def)
next
  case (Cons img rest)
  show ?case
  proof (cases "accept_image e request preset img lw")
    case (Inl t)
    with accept_image_tries [of e request preset img lw] show ?thesis
      by (simp add: left_at_def)
  next
    case (Inr lw1)
    with accept_image_tries [of e request preset img lw] Cons.IH [of lw1] show ?thesis
      by (simp add: left_at_def)
  qed
qed

lemma loop_body_tries:
  "tries (fst (state_of (loop_body e request preset (l, w)))) = tries l + count request"
proof -
  have "tries (fst (state_of (case r of Inl (x, lw1) \<Rightarrow> Threw x lw1 | Inr lw1 \<Rightarrow> Completed lw1)))
          = tries (fst (left_at r))" for r
    by (simp add: left_at_def split: sum.splits prod.splits)
  then show ?thesis
    by (simp add: loop_body_def Let_def process_artifacts_tries
          split: prod.splits sum.splits option.splits)
qed

text \<open>
  The \<open>do ... while\<close> of lines 445-507. A pass that throws or returns ends the loop; after
  a pass that ran to its end the condition of line 507 is tested.
\<close>

function do_while :: "env \<Rightarrow> ImageRequest \<Rightarrow> string \<Rightarrow> locals \<times> world \<Rightarrow> pass" where
  "do_while e request preset lw =
     (case loop_body e request preset lw of
        Threw x left \<Rightarrow> Threw x left
      | ReturnedUndefined left \<Rightarrow> ReturnedUndefined left
      | Completed (l, w) \<Rightarrow>
          if of_nat (validImageCount l) < count request \<and> tries l < maxImageTries
          then do_while e request preset (l, w)
          else Completed (l, w))"
  by pat_completeness auto
termination do_while
proof (relation "measure (\<lambda>(e, request, preset, lw).
          nat \<lceil>(maxImageTries - tries (fst lw)) / count request\<rceil>)")
  show "wf (measure (\<lambda>(e, request, preset, lw).
          nat \<lceil>(maxImageTries - tries (fst lw)) / count request\<rceil>))"
    by simp
next
  fix e request preset lw x l w
  assume b: "loop_body e request preset lw = Completed x" and x: "(l, w) = x"
    and c: "of_nat (validImageCount l) < count request \<and> tries l < maxImageTries"
  from b x have "loop_body e request preset (fst lw, snd lw) = Completed (l, w)" by simp
  with loop_body_tries [of e request preset "fst lw" "snd lw"]
  have t: "tries l = tries (fst lw) + count request" by simp
  from c have p: "0 < count request"
    by (meson of_nat_0_le_iff le_less_trans)
  let ?x = "(maxImageTries - tries l) / count request"
  from c p have "0 < ?x" by simp
  then have "0 < \<lceil>?x\<rceil>" by simp
  moreover have "(maxImageTries - tries (fst lw)) / count request = ?x + 1"
    using t p by (simp add: field_simps)
  ultimately show "((e, request, preset, l, w), (e, request, preset, lw))
      \<in> measure (\<lambda>(e, request, preset, lw).
            nat \<lceil>(maxImageTries - tries (fst lw)) / count request\<rceil>)"
    by simp
qed

declare do_while.simps [simp del]

lemma do_while_threw:
  "loop_body e request preset lw = Threw x left \<Longrightarrow> do_while e request preset lw = Threw x left"
  by (subst do_while.simps) simp

lemma do_while_abort:
  "loop_body e request preset lw = ReturnedUndefined left \<Longrightarrow>
   do_while e request preset lw = ReturnedUndefined left"
  by (subst do_while.simps) simp

lemma do_while_stop:
  "loop_body e request preset lw = Completed (l, w) \<Longrightarrow>
   \<not> (of_nat (validImageCount l) < count request \<and> tries l < maxImageTries) \<Longrightarrow>
   do_while e request preset lw = Completed (l, w)"
  by (subst do_while.simps) auto

lemma do_while_again:
  "loop_body e request preset lw = Completed (l, w) \<Longrightarrow>
   of_nat (validImageCount l) < count request \<and> tries l < maxImageTries \<Longrightarrow>
   do_while e request preset lw = do_while e request preset (l, w)"
  by (subst do_while.simps) simp

definition initial_locals :: locals where
  "initial_locals = \<lparr>urls = [], validImageCount = 0, tries = 0\<rparr>"

text \<open>Line 438: \<open>request.stylePreset || 'fantasy-art'\<close>.\<close>

definition preset_of :: "ImageRequest \<Rightarrow> string" where
  "preset_of request =
     (if truthy (stylePreset request) then the (stylePreset request) else ''fantasy-art'')"

text \<open>
  \<open>generateImage\<close>: \<open>Inl\<close> is an exception (that of line 436, or one that left the
  loop), \<open>Inr None\<close> the value \<open>undefined\<close>, \<open>Inr (Some us)\<close> the array \<open>urls\<close>.
\<close>

definition generateImage ::
  "env \<Rightarrow> ImageRequest \<Rightarrow> world \<Rightarrow> (exn + string list option) \<times> world" where
  "generateImage e request w =
     (if \<not> truthy (apiKey e) then (Inl (Error ''Missing Stability API key.''), w)
      else
        let preset = preset_of request
        in case do_while e request preset (initial_locals, w) of
             Threw x (l, w1) \<Rightarrow> (Inl x, w1)
           | ReturnedUndefined (l, w1) \<Rightarrow> (Inr None, w1)
           | Completed (l, w1) \<Rightarrow>
               let w2 = (if of_nat (validImageCount l) < count request
                         then sendWebsocketMessage (userId request) ImageFiltered
                                (Message image_filtered_message) w1
                         else sendWebsocketMessage (userId request) ImageGenerationDone
                                EmptyObject w1)
               in (Inr (Some (urls l)), w2))"

text \<open>
  The state in which pass \<open>n + 1\<close> of the loop starts, when each of the first \<open>n\<close> passes
  ran to its end and the condition of line 507 let the loop go on.
\<close>

fun after_passes ::
  "env \<Rightarrow> ImageRequest \<Rightarrow> string \<Rightarrow> nat \<Rightarrow> locals \<times> world \<Rightarrow> (locals \<times> world) option" where
  "after_passes e request preset 0 lw = Some lw"
| "after_passes e request preset (Suc n) lw =
     (case loop_body e request preset lw of
        Completed (l, w) \<Rightarrow>
          if of_nat (validImageCount l) < count request \<and> tries l < maxImageTries
          then after_passes e request preset n (l, w)
          else None
      | Threw x left \<Rightarrow> None
      | ReturnedUndefined left \<Rightarrow> None)"

text \<open>
  The blob store takes every write: in local development the data directory is not the
  empty path and every \<open>mkdirSync\<close> and \<open>writeFileSync\<close> goes through; otherwise every
  upload does.
\<close>

definition blob_store_ok :: "env \<Rightarrow> bool" where
  "blob_store_ok e =
     (if isLocalDevelopment e
      then DATA_DIR e \<noteq> Some [] \<and> (\<forall>d. mkdirSync_ok e d) \<and> (\<forall>k f. writeFileSync_ok e k f)
      else (\<forall>k c. s3_send_ok e k c))"


subsection \<open>The four notifications of a run, as values\<close>

definition image_created :: "ImageRequest \<Rightarrow> image_row \<Rightarrow> notification" where
  "image_created request row =
     \<lparr>recipient = userId request, event = ImageCreated, body = CreatedImage row\<rparr>"

definition image_error :: "ImageRequest \<Rightarrow> notification" where
  "image_error request =
     \<lparr>recipient = userId request, event = ImageError, body = Message image_error_message\<rparr>"

definition image_filtered :: "ImageRequest \<Rightarrow> notification" where
  "image_filtered request =
     \<lparr>recipient = userId request, event = ImageFiltered, body = Message image_filtered_message\<rparr>"

definition generation_done :: "ImageRequest \<Rightarrow> notification" where
  "generation_done request =
     \<lparr>recipient = userId request, event = ImageGenerationDone, body = EmptyObject\<rparr>"

subsection \<open>Bookkeeping for the proofs\<close>

text \<open>
  What has been done between two states of the loop: the requests \<open>ps\<close> posted, rows
  recorded with their URLs, blobs and "image created" notifications, and the notifications
  \<open>ns\<close> sent after them.
\<close>

definition progress ::
  "ImageRequest \<Rightarrow> generation_post list \<Rightarrow> notification list
     \<Rightarrow> locals \<times> world \<Rightarrow> locals \<times> world \<Rightarrow> bool" where
  "progress request ps ns lw lw' \<longleftrightarrow>
     (\<exists>rows fs bs.
         images (snd lw') = images (snd lw) @ rows
       \<and> urls (fst lw') = urls (fst lw) @ map img_uri rows
       \<and> validImageCount (fst lw') = validImageCount (fst lw) + length rows
       \<and> notifications (snd lw') = notifications (snd lw) @ map (image_created request) rows @ ns
       \<and> httpPosts (snd lw') = httpPosts (snd lw) @ ps
       \<and> sdCalls (snd lw') = sdCalls (snd lw) @ map (\<lambda>p. (samples p, 0)) ps
       \<and> fileWrites (snd lw') = fileWrites (snd lw) @ fs
       \<and> bucketPuts (snd lw') = bucketPuts (snd lw) @ bs
       \<and> length fs + length bs = length rows)"

text \<open>The notifications a pass sends after those of its images.\<close>

definition closing :: "ImageRequest \<Rightarrow> pass \<Rightarrow> notification list" where
  "closing request r = (case r of ReturnedUndefined left \<Rightarrow> [image_error request] | _ \<Rightarrow> [])"

subsection \<open>Concrete surroundings and requests\<close>

definition ok_artifact :: artifact where
  "ok_artifact = \<lparr>base64 = ''aGk='', seed = 7, finishReason = SUCCESS\<rparr>"

definition filtered_artifact :: artifact where
  "filtered_artifact = \<lparr>base64 = [], seed = 8, finishReason = CONTENT_FILTERED\<rparr>"

text \<open>Surroundings with a key, the bucket as blob store, and every write going through.\<close>

definition env_with :: "(nat \<Rightarrow> generation_post \<Rightarrow> axios_result) \<Rightarrow> env" where
  "env_with client =
     \<lparr>apiKey = Some ''sk-key'', apiHost = ''https://api.stability.ai'',
      isLocalDevelopment = False, DATA_DIR = None, API_URL = Some ''http://localhost:8000'',
      uuidv4 = (\<lambda>k. replicate (Suc k) CHR ''u''), axios_post = client,
      image_row_id = (\<lambda>k. int k + 1),
      mkdirSync_ok = (\<lambda>d. True), writeFileSync_ok = (\<lambda>k f. True), s3_send_ok = (\<lambda>k c. True)\<rparr>"

definition empty_world :: world where
  "empty_world =
     \<lparr>sdCalls = [], httpPosts = [], uuidsDrawn = 0, directories = [], fileWrites = [],
      bucketPuts = [], images = [], notifications = []\<rparr>"

definition request_of_count :: "rat \<Rightarrow> ImageRequest" where
  "request_of_count n =
     \<lparr>userId = 42, prompt = ''a dragon'', count = n, negativePrompt = None,
      stylePreset = None, linking = None\<rparr>"

text \<open>A client that returns as many accepted images as it is asked for.\<close>

definition always_success :: "nat \<Rightarrow> generation_post \<Rightarrow> axios_result" where
  "always_success k p = Resolved (Data (Some (replicate (nat \<lfloor>samples p\<rfloor>) ok_artifact)))"

text \<open>A client whose images are all filtered.\<close>

definition always_filtered :: "nat \<Rightarrow> generation_post \<Rightarrow> axios_result" where
  "always_filtered k p = Resolved (Data (Some (replicate (nat \<lfloor>samples p\<rfloor>) filtered_artifact)))"

text \<open>A client whose every call fails.\<close>

definition always_failing :: "nat \<Rightarrow> generation_post \<Rightarrow> axios_result" where
  "always_failing k p = Rejected"


text \<open>A client that accepts three images of its first batch, and every image afterwards.\<close>

definition three_then_all :: "nat \<Rightarrow> generation_post \<Rightarrow> axios_result" where
  "three_then_all k p =
     (if k = 0 then Resolved (Data (Some (replicate 3 ok_artifact @ replicate 7 filtered_artifact)))
      else Resolved (Data (Some (replicate (nat \<lfloor>samples p\<rfloor>) ok_artifact))))"

text \<open>A client that accepts one image on its first call and fails on the second.\<close>

definition one_then_failing :: "nat \<Rightarrow> generation_post \<Rightarrow> axios_result" where
  "one_then_failing k p =
     (if k = 0 then Resolved (Data (Some [ok_artifact, filtered_artifact])) else Rejected)"

text \<open>A client that returns three accepted images whatever it is asked for.\<close>

definition three_each :: "nat \<Rightarrow> generation_post \<Rightarrow> axios_result" where
  "three_each k p = Resolved (Data (Some (replicate 3 ok_artifact)))"

text \<open>Local development with the empty path as data directory: \<open>mkdirSync\<close> throws.\<close>

definition env_no_data_dir :: env where
  "env_no_data_dir = (env_with always_success)\<lparr>isLocalDevelopment := True, DATA_DIR := Some []\<rparr>"


section \<open>Properties\<close>

subsection \<open>What the loop does, step by step\<close>

lemma progress_refl: "progress request [] [] lw lw"
  by (simp add: progress_def)

lemma progress_trans:
  assumes "progress request ps1 [] a b" and "progress request ps2 ns b c"
  shows "progress request (ps1 @ ps2) ns a c"
proof -
  from assms(1) obtain rows1 fs1 bs1 where 1:
    "images (snd b) = images (snd a) @ rows1"
    "urls (fst b) = urls (fst a) @ map img_uri rows1"
    "validImageCount (fst b) = validImageCount (fst a) + length rows1"
    "notifications (snd b) = notifications (snd a) @ map (image_created request) rows1"
    "httpPosts (snd b) = httpPosts (snd a) @ ps1"
    "sdCalls (snd b) = sdCalls (snd a) @ map (\<lambda>p. (samples p, 0)) ps1"
    "fileWrites (snd b) = fileWrites (snd a) @ fs1"
    "bucketPuts (snd b) = bucketPuts (snd a) @ bs1"
    "length fs1 + length bs1 = length rows1"
    unfolding progress_def by auto
  from assms(2) obtain rows2 fs2 bs2 where 2:
    "images (snd c) = images (snd b) @ rows2"
    "urls (fst c) = urls (fst b) @ map img_uri rows2"
    "validImageCount (fst c) = validImageCount (fst b) + length rows2"
    "notifications (snd c) = notifications (snd b) @ map (image_created request) rows2 @ ns"
    "httpPosts (snd c) = httpPosts (snd b) @ ps2"
    "sdCalls (snd c) = sdCalls (snd b) @ map (\<lambda>p. (samples p, 0)) ps2"
    "fileWrites (snd c) = fileWrites (snd b) @ fs2"
    "bucketPuts (snd c) = bucketPuts (snd b) @ bs2"
    "length fs2 + length bs2 = length rows2"
    unfolding progress_def by auto
  show ?thesis
    unfolding progress_def
    apply (rule exI [of _ "rows1 @ rows2"])
    apply (rule exI [of _ "fs1 @ fs2"])
    apply (rule exI [of _ "bs1 @ bs2"])
    using 1 2 by simp
qed

lemma saveImageLocally_effects:
  "saveImageLocally e i b w = (r, w') \<Longrightarrow>
   sdCalls w' = sdCalls w \<and> httpPosts w' = httpPosts w \<and> uuidsDrawn w' = uuidsDrawn w
   \<and> bucketPuts w' = bucketPuts w \<and> images w' = images w \<and> notifications w' = notifications w
   \<and> (case r of Inl x \<Rightarrow> fileWrites w' = fileWrites w
               | Inr u \<Rightarrow> (\<exists>f. fileWrites w' = fileWrites w @ [f]))"
  by (auto simp: saveImageLocally_def Let_def split: if_splits)

lemma uploadImage_effects:
  "uploadImage e i b w = (r, w') \<Longrightarrow>
   sdCalls w' = sdCalls w \<and> httpPosts w' = httpPosts w \<and> uuidsDrawn w' = uuidsDrawn w
   \<and> fileWrites w' = fileWrites w \<and> images w' = images w \<and> notifications w' = notifications w
   \<and> (case r of Inl x \<Rightarrow> bucketPuts w' = bucketPuts w
               | Inr u \<Rightarrow> (\<exists>c. bucketPuts w' = bucketPuts w @ [c]))"
  by (auto simp: uploadImage_def Let_def split: if_splits)

lemma accept_image_progress:
  "progress request [] [] lw (left_at (accept_image e request preset img lw))"
proof -
  obtain l w where lw: "lw = (l, w)" by (cases lw)
  let ?w1 = "w\<lparr>uuidsDrawn := Suc (uuidsDrawn w)\<rparr>"
  let ?store = "if \<not> isLocalDevelopment e then uploadImage e (uuidv4 e (uuidsDrawn w)) (base64 img) ?w1
                else saveImageLocally e (uuidv4 e (uuidsDrawn w)) (base64 img) ?w1"
  obtain r w2 where s: "?store = (r, w2)" by (cases ?store)
  have eff: "sdCalls w2 = sdCalls w \<and> httpPosts w2 = httpPosts w
     \<and> images w2 = images w \<and> notifications w2 = notifications w
     \<and> (case r of Inl x \<Rightarrow> fileWrites w2 = fileWrites w \<and> bucketPuts w2 = bucketPuts w
                 | Inr u \<Rightarrow> (\<exists>fs bs. fileWrites w2 = fileWrites w @ fs \<and> bucketPuts w2 = bucketPuts w @ bs
                                \<and> length fs + length bs = 1))"
  proof (cases "isLocalDevelopment e")
    case True
    with s have "saveImageLocally e (uuidv4 e (uuidsDrawn w)) (base64 img) ?w1 = (r, w2)" by simp
    from saveImageLocally_effects [OF this] show ?thesis
      by (cases r) auto
  next
    case False
    with s have "uploadImage e (uuidv4 e (uuidsDrawn w)) (base64 img) ?w1 = (r, w2)" by simp
    from uploadImage_effects [OF this] show ?thesis
      by (cases r) auto
  qed
  show ?thesis
  proof (cases r)
    case (Inl x)
    with s lw have "left_at (accept_image e request preset img lw) = (l, w2)"
      by (simp add: accept_image_def left_at_def Let_def)
    with eff Inl lw show ?thesis by (simp add: progress_def)
  next
    case (Inr url)
    let ?row = "\<lparr>img_id = image_row_id e (length (images w2)), img_userId = userId request,
                 img_uri = url, img_prompt = prompt request,
                 img_negativePrompt = negativePrompt request, img_stylePreset = preset,
                 img_sessionId = (case linking request of None \<Rightarrow> None | Some k \<Rightarrow> sessionId k),
                 img_conjurationId = (case linking request of None \<Rightarrow> None | Some k \<Rightarrow> conjurationId k),
                 img_characterId = (case linking request of None \<Rightarrow> None | Some k \<Rightarrow> characterId k)\<rparr>"
    from Inr s lw have a: "left_at (accept_image e request preset img lw)
        = (l\<lparr>urls := urls l @ [url], validImageCount := Suc (validImageCount l)\<rparr>,
           w2\<lparr>images := images w2 @ [?row],
              notifications := notifications w2 @ [image_created request ?row]\<rparr>)"
      by (simp add: accept_image_def left_at_def Let_def prisma_image_create_def
            sendWebsocketMessage_def image_created_def)
    from eff Inr obtain fs bs where
      "fileWrites w2 = fileWrites w @ fs" "bucketPuts w2 = bucketPuts w @ bs"
      "length fs + length bs = 1"
      by auto
    with eff lw show ?thesis
      unfolding progress_def a
      apply (intro exI [of _ "[?row]"] exI [of _ fs] exI [of _ bs])
      by simp
  qed
qed

lemma process_artifacts_progress:
  "progress request [] [] lw (left_at (process_artifacts e request preset arts lw))"
proof (induction arts arbitrary: lw)
  case Nil
  show ?case by (simp add: left_at_def progress_refl)
next
  case (Cons img rest)
  show ?case
  proof (cases "of_nat (validImageCount (fst lw)) = count request")
    case True
    then show ?thesis by (simp add: left_at_def progress_refl)
  next
    case False
    show ?thesis
    proof (cases "accept_image e request preset img lw")
      case (Inl t)
      with False accept_image_progress [of request lw e preset img] show ?thesis
        by (simp add: left_at_def)
    next
      case (Inr lw1)
      with accept_image_progress [of request lw e preset img]
      have "progress request [] [] lw lw1" by (simp add: left_at_def)
      from progress_trans [OF this Cons.IH [of lw1]] False Inr show ?thesis by simp
    qed
  qed
qed

lemma image_error_count [simp]: "image_error (request\<lparr>count := n\<rparr>) = image_error request"
  by (simp add: image_error_def)

lemma loop_body_eq:
  "loop_body e request preset (l, w) =
     (let p = generation_request e (request\<lparr>count := count request - of_nat (validImageCount l)\<rparr>) preset;
          w1 = w\<lparr>sdCalls := sdCalls w @ [(count request - of_nat (validImageCount l), 0)],
                 httpPosts := httpPosts w @ [p]\<rparr>;
          l1 = l\<lparr>tries := tries l + count request\<rparr>
      in case axios_post e (length (httpPosts w)) p of
           Rejected \<Rightarrow> ReturnedUndefined (l1, w1\<lparr>notifications := notifications w @ [image_error request]\<rparr>)
         | Resolved NoData \<Rightarrow> Threw TypeError (l1, w1)
         | Resolved (Data None) \<Rightarrow> Threw TypeError (l1, w1)
         | Resolved (Data (Some as)) \<Rightarrow>
             (case process_artifacts e request preset
                     (filter (\<lambda>a. finishReason a = SUCCESS) as) (l1, w1) of
                Inl (x, lw1) \<Rightarrow> Threw x lw1
              | Inr lw1 \<Rightarrow> Completed lw1))"
  by (simp add: loop_body_def postToStableDiffusion_def Let_def notify_rephrased_def truthy_def
        sendWebsocketMessage_def image_error_def
        split: axios_result.splits response_data.splits option.splits)

lemma loop_body_progress:
  "progress request
     [generation_request e (request\<lparr>count := count request - of_nat (validImageCount l)\<rparr>) preset]
     (closing request (loop_body e request preset (l, w)))
     (l, w) (state_of (loop_body e request preset (l, w)))"
proof -
  let ?p = "generation_request e (request\<lparr>count := count request - of_nat (validImageCount l)\<rparr>) preset"
  let ?w1 = "w\<lparr>sdCalls := sdCalls w @ [(count request - of_nat (validImageCount l), 0)],
                httpPosts := httpPosts w @ [?p]\<rparr>"
  let ?l1 = "l\<lparr>tries := tries l + count request\<rparr>"
  have sp: "samples ?p = count request - of_nat (validImageCount l)"
    by (simp add: generation_request_def)
  have step: "progress request [?p] [] (l, w) (?l1, ?w1)"
    by (simp add: progress_def sp)
  show ?thesis
  proof (cases "axios_post e (length (httpPosts w)) ?p")
    case Rejected
    then show ?thesis by (simp add: loop_body_eq closing_def progress_def sp)
  next
    case (Resolved d)
    show ?thesis
    proof (cases d)
      case NoData
      with Resolved step show ?thesis by (simp add: loop_body_eq closing_def)
    next
      case (Data a)
      show ?thesis
      proof (cases a)
        case None
        with Resolved Data step show ?thesis by (simp add: loop_body_eq closing_def)
      next
        case (Some as)
        let ?r = "process_artifacts e request preset (filter (\<lambda>a. finishReason a = SUCCESS) as) (?l1, ?w1)"
        have b: "loop_body e request preset (l, w)
                   = (case ?r of Inl (x, lw1) \<Rightarrow> Threw x lw1 | Inr lw1 \<Rightarrow> Completed lw1)"
          using Resolved Data Some by (simp add: loop_body_eq)
        have "progress request ([?p] @ []) [] (l, w) (left_at ?r)"
          using step process_artifacts_progress by (rule progress_trans)
        then show ?thesis
          unfolding b by (cases ?r) (auto simp: left_at_def closing_def)
      qed
    qed
  qed
qed

lemma do_while_progress:
  "\<exists>ps. ps \<noteq> []
       \<and> progress request ps (closing request (do_while e request preset (l, w)))
            (l, w) (state_of (do_while e request preset (l, w)))"
proof (induction e request preset "(l, w)" arbitrary: l w rule: do_while.induct)
  case (1 e request preset)
  let ?p = "generation_request e (request\<lparr>count := count request - of_nat (validImageCount l)\<rparr>) preset"
  note b = loop_body_progress [of request e l preset w]
  show ?case
  proof (cases "loop_body e request preset (l, w)")
    case (Threw x left)
    then have "do_while e request preset (l, w) = Threw x left" by (rule do_while_threw)
    with b Threw show ?thesis by (intro exI [of _ "[?p]"]) simp
  next
    case (ReturnedUndefined left)
    then have "do_while e request preset (l, w) = ReturnedUndefined left" by (rule do_while_abort)
    with b ReturnedUndefined show ?thesis by (intro exI [of _ "[?p]"]) (simp add: closing_def)
  next
    case (Completed lw1)
    obtain l1 w1 where lw1: "lw1 = (l1, w1)" by (cases lw1)
    from b Completed lw1 have s: "progress request [?p] [] (l, w) (l1, w1)"
      by (simp add: closing_def)
    show ?thesis
    proof (cases "of_nat (validImageCount l1) < count request \<and> tries l1 < maxImageTries")
      case False
      with Completed lw1 have "do_while e request preset (l, w) = Completed (l1, w1)"
        by (simp add: do_while_stop)
      with s show ?thesis by (intro exI [of _ "[?p]"]) (simp add: closing_def)
    next
      case True
      with Completed lw1
      have d: "do_while e request preset (l, w) = do_while e request preset (l1, w1)"
        by (simp add: do_while_again)
      from "1.hyps" [OF Completed lw1 [symmetric] True] obtain ps where
        "progress request ps (closing request (do_while e request preset (l1, w1)))
            (l1, w1) (state_of (do_while e request preset (l1, w1)))"
        by blast
      from progress_trans [OF s this] show ?thesis
        unfolding d by (intro exI [of _ "[?p] @ ps"]) simp
    qed
  qed
qed


lemma accept_image_valid:
  "validImageCount (fst (left_at (accept_image e request preset img lw)))
     \<le> Suc (validImageCount (fst lw))"
  by (auto simp: accept_image_def left_at_def Let_def prisma_image_create_def
        sendWebsocketMessage_def split: prod.splits sum.splits)

lemma next_image_fits:
  assumes "c \<in> \<int>" and "of_nat v \<le> (c::rat)" and "of_nat v \<noteq> c" and "v' \<le> Suc v"
  shows "of_nat v' \<le> c"
proof -
  from assms(1) obtain z where z: "c = of_int z" by (rule Ints_cases)
  from assms(2,3) z have "(of_int (int v) :: rat) \<le> of_int z" and "(of_int (int v) :: rat) \<noteq> of_int z"
    by simp_all
  then have "int v \<le> z" and "int v \<noteq> z"
    by (simp_all only: of_int_le_iff of_int_eq_iff not_False_eq_True)
  then have "int v < z" by simp
  with assms(4) have "int v' \<le> z" by simp
  then have "(of_int (int v') :: rat) \<le> of_int z" by (simp only: of_int_le_iff)
  with z show ?thesis by simp
qed

lemma process_artifacts_bound:
  "count request \<in> \<int> \<Longrightarrow> of_nat (validImageCount (fst lw)) \<le> count request \<Longrightarrow>
   of_nat (validImageCount (fst (left_at (process_artifacts e request preset arts lw))))
     \<le> count request"
proof (induction arts arbitrary: lw)
  case Nil
  then show ?case by (simp add: left_at_def)
next
  case (Cons img rest)
  show ?case
  proof (cases "of_nat (validImageCount (fst lw)) = count request")
    case True
    with Cons.prems show ?thesis by (simp add: left_at_def)
  next
    case False
    have v: "of_nat (validImageCount (fst (left_at (accept_image e request preset img lw))))
               \<le> count request"
      using Cons.prems False accept_image_valid by (rule next_image_fits)
    show ?thesis
    proof (cases "accept_image e request preset img lw")
      case (Inl t)
      with v False show ?thesis by (simp add: left_at_def)
    next
      case (Inr lw1)
      with v have "of_nat (validImageCount (fst lw1)) \<le> count request" by (simp add: left_at_def)
      from Cons.IH [OF Cons.prems(1) this] False Inr show ?thesis by simp
    qed
  qed
qed

lemma loop_body_bound:
  assumes "count request \<in> \<int>" and "of_nat (validImageCount l) \<le> count request"
  shows "of_nat (validImageCount (fst (state_of (loop_body e request preset (l, w)))))
           \<le> count request"
proof -
  have "of_nat (validImageCount (fst (state_of
            (case process_artifacts e request preset arts (l1, w1) of
               Inl (x, lw1) \<Rightarrow> Threw x lw1 | Inr lw1 \<Rightarrow> Completed lw1)))) \<le> count request"
    if "validImageCount l1 = validImageCount l" for arts l1 w1
    using process_artifacts_bound [of request "(l1, w1)" e preset arts] assms that
    by (auto simp: left_at_def split: sum.splits)
  with assms(2) show ?thesis
    by (simp add: loop_body_eq Let_def
          split: axios_result.splits response_data.splits option.splits)
qed

lemma do_while_bound:
  "count request \<in> \<int> \<Longrightarrow> of_nat (validImageCount l) \<le> count request \<Longrightarrow>
   of_nat (validImageCount (fst (state_of (do_while e request preset (l, w))))) \<le> count request"
proof (induction e request preset "(l, w)" arbitrary: l w rule: do_while.induct)
  case (1 e request preset)
  note v = loop_body_bound [OF "1.prems", of e preset w]
  show ?case
  proof (cases "loop_body e request preset (l, w)")
    case (Threw x left)
    then have "do_while e request preset (l, w) = Threw x left" by (rule do_while_threw)
    with v Threw show ?thesis by simp
  next
    case (ReturnedUndefined left)
    then have "do_while e request preset (l, w) = ReturnedUndefined left" by (rule do_while_abort)
    with v ReturnedUndefined show ?thesis by simp
  next
    case (Completed lw1)
    obtain l1 w1 where lw1: "lw1 = (l1, w1)" by (cases lw1)
    show ?thesis
    proof (cases "of_nat (validImageCount l1) < count request \<and> tries l1 < maxImageTries")
      case False
      with Completed lw1 have "do_while e request preset (l, w) = Completed (l1, w1)"
        by (simp add: do_while_stop)
      with v Completed lw1 show ?thesis by simp
    next
      case True
      with Completed lw1
      have d: "do_while e request preset (l, w) = do_while e request preset (l1, w1)"
        by (simp add: do_while_again)
      from v Completed lw1 have "of_nat (validImageCount l1) \<le> count request" by simp
      from "1.hyps" [OF Completed lw1 [symmetric] True "1.prems"(1) this] show ?thesis
        unfolding d .
    qed
  qed
qed

text \<open>Every request of a run asks for a non-negative number of images.\<close>

lemma do_while_posts_nonneg:
  "of_nat (validImageCount l) \<le> count request \<Longrightarrow>
   \<exists>ps. httpPosts (snd (state_of (do_while e request preset (l, w)))) = httpPosts w @ ps
       \<and> (\<forall>p\<in>set ps. 0 \<le> samples p)"
proof (induction e request preset "(l, w)" arbitrary: l w rule: do_while.induct)
  case (1 e request preset)
  let ?p = "generation_request e (request\<lparr>count := count request - of_nat (validImageCount l)\<rparr>) preset"
  have sp: "0 \<le> samples ?p" using "1.prems" by (simp add: generation_request_def)
  from loop_body_progress [of request e l preset w]
  have h: "httpPosts (snd (state_of (loop_body e request preset (l, w)))) = httpPosts w @ [?p]"
    by (auto simp: progress_def)
  show ?case
  proof (cases "loop_body e request preset (l, w)")
    case (Threw x left)
    then have "do_while e request preset (l, w) = Threw x left" by (rule do_while_threw)
    with h sp Threw show ?thesis by simp
  next
    case (ReturnedUndefined left)
    then have "do_while e request preset (l, w) = ReturnedUndefined left" by (rule do_while_abort)
    with h sp ReturnedUndefined show ?thesis by simp
  next
    case (Completed lw1)
    obtain l1 w1 where lw1: "lw1 = (l1, w1)" by (cases lw1)
    show ?thesis
    proof (cases "of_nat (validImageCount l1) < count request \<and> tries l1 < maxImageTries")
      case False
      with Completed lw1 have "do_while e request preset (l, w) = Completed (l1, w1)"
        by (simp add: do_while_stop)
      with h sp Completed lw1 show ?thesis by simp
    next
      case True
      with Completed lw1
      have d: "do_while e request preset (l, w) = do_while e request preset (l1, w1)"
        by (simp add: do_while_again)
      from True have "of_nat (validImageCount l1) \<le> count request" by simp
      from "1.hyps" [OF Completed lw1 [symmetric] True this] obtain ps where
        "httpPosts (snd (state_of (do_while e request preset (l1, w1)))) = httpPosts w1 @ ps"
        "\<forall>p\<in>set ps. 0 \<le> samples p"
        by blast
      with h sp Completed lw1 show ?thesis
        unfolding d by (intro exI [of _ "?p # ps"]) simp
    qed
  qed
qed

lemma generateImage_with_key:
  "truthy (apiKey e) \<Longrightarrow>
   generateImage e request w =
     (case do_while e request (preset_of request) (initial_locals, w) of
        Threw x (l, w1) \<Rightarrow> (Inl x, w1)
      | ReturnedUndefined (l, w1) \<Rightarrow> (Inr None, w1)
      | Completed (l, w1) \<Rightarrow>
          (Inr (Some (urls l)),
           w1\<lparr>notifications := notifications w1 @
                  [if of_nat (validImageCount l) < count request then image_filtered request
                   else generation_done request]\<rparr>))"
  by (simp add: generateImage_def sendWebsocketMessage_def image_filtered_def generation_done_def
           split: pass.splits prod.splits)

lemma accept_image_ok:
  assumes "blob_store_ok e"
  shows "\<exists>lw1. accept_image e request preset img lw = Inr lw1
             \<and> validImageCount (fst lw1) = Suc (validImageCount (fst lw))"
proof (cases "isLocalDevelopment e")
  case True
  with assms show ?thesis
    by (auto simp: blob_store_ok_def accept_image_def saveImageLocally_def Let_def
          prisma_image_create_def sendWebsocketMessage_def split: prod.splits option.splits)
next
  case False
  with assms show ?thesis
    by (auto simp: blob_store_ok_def accept_image_def uploadImage_def Let_def
          prisma_image_create_def sendWebsocketMessage_def split: prod.splits)
qed

lemma process_artifacts_ok:
  "blob_store_ok e \<Longrightarrow> \<exists>lw1. process_artifacts e request preset arts lw = Inr lw1"
proof (induction arts arbitrary: lw)
  case Nil
  show ?case by simp
next
  case (Cons img rest)
  from accept_image_ok [OF Cons.prems, of request preset img lw] obtain lw1 where
    "accept_image e request preset img lw = Inr lw1" by blast
  with Cons.IH [OF Cons.prems, of lw1] show ?case by simp
qed

lemma process_artifacts_all:
  "blob_store_ok e \<Longrightarrow>
   of_nat (validImageCount (fst lw) + length arts) \<le> count request \<Longrightarrow>
   \<exists>lw1. process_artifacts e request preset arts lw = Inr lw1
        \<and> validImageCount (fst lw1) = validImageCount (fst lw) + length arts"
proof (induction arts arbitrary: lw)
  case Nil
  show ?case by simp
next
  case (Cons img rest)
  from Cons.prems(2) have "(of_nat (validImageCount (fst lw)) :: rat) < count request"
    by simp
  then have ne: "of_nat (validImageCount (fst lw)) \<noteq> count request" by simp
  from accept_image_ok [OF Cons.prems(1), of request preset img lw] obtain lw1 where
    a: "accept_image e request preset img lw = Inr lw1"
       "validImageCount (fst lw1) = Suc (validImageCount (fst lw))" by blast
  from Cons.prems(2) a(2)
  have "of_nat (validImageCount (fst lw1) + length rest) \<le> count request" by simp
  from Cons.IH [OF Cons.prems(1) this] a ne show ?case by simp
qed

lemma process_artifacts_full:
  "of_nat (validImageCount (fst lw)) = count request \<Longrightarrow>
   process_artifacts e request preset arts lw = Inr lw"
  by (cases arts) simp_all



lemma after_passes_do_while:
  "after_passes e request preset n lw = Some lw' \<Longrightarrow>
   do_while e request preset lw = do_while e request preset lw'"
proof (induction n arbitrary: lw)
  case 0
  then show ?case by simp
next
  case (Suc n)
  from Suc.prems obtain l1 w1 where b: "loop_body e request preset lw = Completed (l1, w1)"
    and c: "of_nat (validImageCount l1) < count request \<and> tries l1 < maxImageTries"
    and r: "after_passes e request preset n (l1, w1) = Some lw'"
    by (auto split: pass.splits prod.splits if_splits)
  from do_while_again [OF b c] Suc.IH [OF r] show ?case by simp
qed

lemma after_passes_progress:
  "after_passes e request preset n lw = Some lw' \<Longrightarrow> \<exists>ps. progress request ps [] lw lw'"
proof (induction n arbitrary: lw)
  case 0
  then have "lw' = lw" by simp
  with progress_refl [of request lw] show ?case by blast
next
  case (Suc n)
  from Suc.prems obtain l1 w1 where b: "loop_body e request preset lw = Completed (l1, w1)"
    and r: "after_passes e request preset n (l1, w1) = Some lw'"
    by (auto split: pass.splits prod.splits if_splits)
  obtain l w where lw: "lw = (l, w)" by (cases lw)
  from loop_body_progress [of request e l preset w] b lw obtain p where
    1: "progress request [p] [] lw (l1, w1)" by (auto simp: closing_def)
  from Suc.IH [OF r] obtain ps where "progress request ps [] (l1, w1) lw'" by blast
  from progress_trans [OF 1 this] show ?case by blast
qed

lemma process_artifacts_fractional:
  "blob_store_ok e \<Longrightarrow> count request \<notin> \<int> \<Longrightarrow>
   \<exists>lw1. process_artifacts e request preset arts lw = Inr lw1
        \<and> validImageCount (fst lw1) = validImageCount (fst lw) + length arts"
proof (induction arts arbitrary: lw)
  case Nil
  show ?case by simp
next
  case (Cons img rest)
  from Cons.prems(2) have ne: "of_nat (validImageCount (fst lw)) \<noteq> count request"
    by (metis Ints_of_nat)
  from accept_image_ok [OF Cons.prems(1), of request preset img lw] obtain lw1 where
    a: "accept_image e request preset img lw = Inr lw1"
       "validImageCount (fst lw1) = Suc (validImageCount (fst lw))" by blast
  from Cons.IH [OF Cons.prems, of lw1] a ne show ?case by simp
qed

lemma do_while_all_filtered:
  assumes "\<forall>k p. \<exists>g. axios_post e k p = Resolved (Data (Some g))
                     \<and> (\<forall>a\<in>set g. finishReason a \<noteq> SUCCESS)"
    and "count request = of_int N" and "1 \<le> N"
    and "validImageCount l = 0" and "tries l = of_int T" and "T < 30"
  shows "\<exists>l' w' ps. do_while e request preset (l, w) = Completed (l', w')
          \<and> validImageCount l' = 0 \<and> urls l' = urls l
          \<and> images w' = images w \<and> notifications w' = notifications w
          \<and> fileWrites w' = fileWrites w \<and> bucketPuts w' = bucketPuts w
          \<and> httpPosts w' = httpPosts w @ ps
          \<and> int (length ps) = (29 - T) div N + 1"
  using assms
proof (induction e request preset "(l, w)" arbitrary: l w T rule: do_while.induct)
  case (1 e request preset)
  let ?p = "generation_request e (request\<lparr>count := count request - of_nat (validImageCount l)\<rparr>) preset"
  let ?l1 = "l\<lparr>tries := tries l + count request\<rparr>"
  let ?w1 = "w\<lparr>sdCalls := sdCalls w @ [(count request - of_nat (validImageCount l), 0)],
                httpPosts := httpPosts w @ [?p]\<rparr>"
  from "1.prems"(1) obtain g where g: "axios_post e (length (httpPosts w)) ?p = Resolved (Data (Some g))"
    "\<forall>a\<in>set g. finishReason a \<noteq> SUCCESS"
    by blast
  have fg: "filter (\<lambda>a. finishReason a = SUCCESS) g = []" using g(2) by (simp add: filter_empty_conv)
  have b: "loop_body e request preset (l, w) = Completed (?l1, ?w1)"
    using g(1) by (simp add: loop_body_eq Let_def fg)
  have t1: "tries ?l1 = of_int (T + N)" using "1.prems"(2,5) by simp
  have lt: "tries ?l1 < maxImageTries \<longleftrightarrow> T + N < 30"
    unfolding t1 maxImageTries_def by (metis of_int_less_iff of_int_numeral)
  show ?case
  proof (cases "T + N < 30")
    case False
    have d: "do_while e request preset (l, w) = Completed (?l1, ?w1)"
      using False lt by (intro do_while_stop [OF b]) simp
    from False "1.prems"(3,6) have "(29 - T) div N = 0"
      by simp
    with d "1.prems"(4) show ?thesis by simp
  next
    case True
    have c: "of_nat (validImageCount ?l1) < count request \<and> tries ?l1 < maxImageTries"
      using True lt "1.prems"(2,3,4) by simp
    have d: "do_while e request preset (l, w) = do_while e request preset (?l1, ?w1)"
      using b c by (rule do_while_again)
    have v: "validImageCount ?l1 = 0" using "1.prems"(4) by simp
    from "1.hyps" [OF b refl c "1.prems"(1,2,3) v t1 True]
    obtain l' w' ps where r: "do_while e request preset (?l1, ?w1) = Completed (l', w')"
      "validImageCount l' = 0" "urls l' = urls ?l1"
      "images w' = images ?w1" "notifications w' = notifications ?w1"
      "fileWrites w' = fileWrites ?w1" "bucketPuts w' = bucketPuts ?w1"
      "httpPosts w' = httpPosts ?w1 @ ps"
      "int (length ps) = (29 - (T + N)) div N + 1"
      by blast
    have "(29 - T) div N = (29 - (T + N)) div N + 1"
    proof -
      have "29 - T = (29 - (T + N)) + N" by simp
      then show ?thesis using "1.prems"(3) by (metis div_add_self2 not_one_le_zero)
    qed
    with r show ?thesis
      unfolding d
      apply (intro exI [of _ l'] exI [of _ w'] exI [of _ "?p # ps"])
      by simp
  qed
qed





lemma progressE:
  assumes "progress request ps ns (l, w) (l', w')"
  obtains rows fs bs where
    "images w' = images w @ rows" "urls l' = urls l @ map img_uri rows"
    "validImageCount l' = validImageCount l + length rows"
    "notifications w' = notifications w @ map (image_created request) rows @ ns"
    "httpPosts w' = httpPosts w @ ps"
    "sdCalls w' = sdCalls w @ map (\<lambda>p. (samples p, 0)) ps"
    "fileWrites w' = fileWrites w @ fs" "bucketPuts w' = bucketPuts w @ bs"
    "length fs + length bs = length rows"
  using assms unfolding progress_def by auto

subsection \<open>Facts about the concrete surroundings\<close>

lemma axios_post_env_with [simp]: "axios_post (env_with client) = client"
  by (simp add: env_with_def)

lemma truthy_apiKey_env_with [simp]: "truthy (apiKey (env_with client))"
  by (simp add: env_with_def truthy_def)

lemma blob_store_ok_env_with [simp]: "blob_store_ok (env_with client)"
  by (simp add: env_with_def blob_store_ok_def)

lemma count_request_of_count [simp]: "count (request_of_count n) = n"
  by (simp add: request_of_count_def)

lemma request_of_count_update [simp]: "(request_of_count n)\<lparr>count := m\<rparr> = request_of_count m"
  by (simp add: request_of_count_def)

lemma preset_of_request_of_count [simp]: "preset_of (request_of_count n) = ''fantasy-art''"
  by (simp add: preset_of_def request_of_count_def truthy_def)

lemma filter_ok_artifact [simp]:
  "filter (\<lambda>a. finishReason a = SUCCESS) (replicate n ok_artifact) = replicate n ok_artifact"
  by (simp add: ok_artifact_def)

lemma filter_filtered_artifact [simp]:
  "filter (\<lambda>a. finishReason a = SUCCESS) (replicate n filtered_artifact) = []"
  by (simp add: filtered_artifact_def)

lemma request_count_same [simp]: "request\<lparr>count := count request\<rparr> = (request :: ImageRequest)"
  by simp

subsection \<open>The claims\<close>

text \<open>
  C1, as the claim states it, fails: nothing in \<open>generateImage\<close> catches an exception
  of the blob store. In local development with the empty path as data directory, and a
  client that returns exactly the two accepted images asked for, \<open>mkdirSync\<close> throws on
  the first image: the exception leaves \<open>generateImage\<close>, no row is recorded and no
  notification is sent.
\<close>

theorem all_success_counterexample:
  "(\<forall>k p. \<exists>g. axios_post env_no_data_dir k p = Resolved (Data (Some g))
                 \<and> length g = nat \<lfloor>samples p\<rfloor>
                 \<and> (\<forall>a\<in>set g. finishReason a = SUCCESS))
   \<and> truthy (apiKey env_no_data_dir)
   \<and> fst (generateImage env_no_data_dir (request_of_count 2) empty_world) = Inl FsError
   \<and> images (snd (generateImage env_no_data_dir (request_of_count 2) empty_world)) = []
   \<and> notifications (snd (generateImage env_no_data_dir (request_of_count 2) empty_world)) = []"
proof -
  have c: "\<forall>k p. \<exists>g. axios_post env_no_data_dir k p = Resolved (Data (Some g))
                 \<and> length g = nat \<lfloor>samples p\<rfloor>
                 \<and> (\<forall>a\<in>set g. finishReason a = SUCCESS)"
    by (simp add: env_no_data_dir_def always_success_def ok_artifact_def)
  have k: "truthy (apiKey env_no_data_dir)"
    by (simp add: env_no_data_dir_def env_with_def truthy_def)
  have e: "fst (generateImage env_no_data_dir (request_of_count 2) empty_world) = Inl FsError
   \<and> images (snd (generateImage env_no_data_dir (request_of_count 2) empty_world)) = []
   \<and> notifications (snd (generateImage env_no_data_dir (request_of_count 2) empty_world)) = []"
    by code_simp
  from c k e show ?thesis by blast
qed

text \<open>
  C1, amended. For a request with \<open>count = N\<close>, \<open>N \<ge> 1\<close>, a key configured, a blob store
  that takes every write, and a client that on every call returns exactly the number of
  images asked for, all with finish reason SUCCESS, \<open>generateImage\<close> adds exactly \<open>N\<close>
  rows to the image table, returns their \<open>N\<close> URIs in the order the rows were created, and
  sends one "image created" per row followed by "generation done"; no "filtered"
  notification is among them.
\<close>

theorem all_success_first_batch:
  assumes key: "truthy (apiKey e)" and store: "blob_store_ok e"
    and n: "count request = of_nat N" "1 \<le> N"
    and client: "\<forall>k p. \<exists>g. axios_post e k p = Resolved (Data (Some g))
                         \<and> length g = nat \<lfloor>samples p\<rfloor>
                         \<and> (\<forall>a\<in>set g. finishReason a = SUCCESS)"
  shows "\<exists>rows. fst (generateImage e request w) = Inr (Some (map img_uri rows))
         \<and> length rows = N
         \<and> images (snd (generateImage e request w)) = images w @ rows
         \<and> notifications (snd (generateImage e request w))
             = notifications w @ map (image_created request) rows @ [generation_done request]
         \<and> image_filtered request \<notin> set (map (image_created request) rows @ [generation_done request])"
proof -
  let ?p = "generation_request e request (preset_of request)"
  let ?l1 = "initial_locals\<lparr>tries := count request\<rparr>"
  let ?w1 = "w\<lparr>sdCalls := sdCalls w @ [(count request, 0)], httpPosts := httpPosts w @ [?p]\<rparr>"
  from client obtain g where g: "axios_post e (length (httpPosts w)) ?p = Resolved (Data (Some g))"
    "length g = nat \<lfloor>samples ?p\<rfloor>" "\<forall>a\<in>set g. finishReason a = SUCCESS"
    by blast
  have lg: "length g = N" using g(2) n by (simp add: generation_request_def)
  have fg: "filter (\<lambda>a. finishReason a = SUCCESS) g = g" using g(3) by simp
  have "of_nat (validImageCount (fst (?l1, ?w1)) + length g) \<le> count request"
    by (simp add: initial_locals_def lg n)
  from process_artifacts_all [OF store this, of "preset_of request"]
  obtain l' w' where p: "process_artifacts e request (preset_of request) g (?l1, ?w1) = Inr (l', w')"
    and v: "validImageCount l' = N"
    by (auto simp: initial_locals_def lg)
  have b: "loop_body e request (preset_of request) (initial_locals, w) = Completed (l', w')"
    using g(1) p by (simp add: loop_body_eq Let_def initial_locals_def fg)
  from loop_body_progress [of request e initial_locals "preset_of request" w] b
  have "progress request [generation_request e
           (request\<lparr>count := count request - of_nat (validImageCount initial_locals)\<rparr>)
           (preset_of request)] [] (initial_locals, w) (l', w')"
    by (simp add: closing_def)
  then obtain rows where r:
    "images w' = images w @ rows" "urls l' = urls initial_locals @ map img_uri rows"
    "validImageCount l' = validImageCount initial_locals + length rows"
    "notifications w' = notifications w @ map (image_created request) rows @ []"
    by (rule progressE)
  have "do_while e request (preset_of request) (initial_locals, w) = Completed (l', w')"
    by (rule do_while_stop [OF b]) (simp add: v n)
  with key v n have gi: "generateImage e request w
      = (Inr (Some (urls l')), w'\<lparr>notifications := notifications w' @ [generation_done request]\<rparr>)"
    by (simp add: generateImage_with_key)
  have nf: "image_filtered request \<notin> set (map (image_created request) rows @ [generation_done request])"
    by (auto simp: image_filtered_def image_created_def generation_done_def)
  show ?thesis
    apply (rule exI [of _ rows])
    using gi r v nf by (simp add: initial_locals_def)
qed

text \<open>
  C1, amended, at a client that returns what it is asked for and a bucket that takes every
  upload, for a request of two images: the hypotheses hold there, and the two URIs come
  back in the order they were produced.
\<close>

theorem all_success_first_batch_witness:
  "truthy (apiKey (env_with always_success)) \<and> blob_store_ok (env_with always_success)
   \<and> count (request_of_count 2) = of_nat 2
   \<and> (\<forall>k p. \<exists>g. axios_post (env_with always_success) k p = Resolved (Data (Some g))
                 \<and> length g = nat \<lfloor>samples p\<rfloor>
                 \<and> (\<forall>a\<in>set g. finishReason a = SUCCESS))
   \<and> fst (generateImage (env_with always_success) (request_of_count 2) empty_world)
       = Inr (Some [''https://assets.mythweaver.co/u.png'', ''https://assets.mythweaver.co/uu.png''])
   \<and> (\<exists>rows. fst (generateImage (env_with always_success) (request_of_count 2) empty_world)
                 = Inr (Some (map img_uri rows))
         \<and> length rows = 2
         \<and> images (snd (generateImage (env_with always_success) (request_of_count 2) empty_world)) = rows
         \<and> notifications (snd (generateImage (env_with always_success) (request_of_count 2) empty_world))
             = map (image_created (request_of_count 2)) rows @ [generation_done (request_of_count 2)])"
proof -
  have c: "\<forall>k p. \<exists>g. axios_post (env_with always_success) k p = Resolved (Data (Some g))
                 \<and> length g = nat \<lfloor>samples p\<rfloor>
                 \<and> (\<forall>a\<in>set g. finishReason a = SUCCESS)"
    by (simp add: always_success_def ok_artifact_def)
  have e: "fst (generateImage (env_with always_success) (request_of_count 2) empty_world)
       = Inr (Some [''https://assets.mythweaver.co/u.png'', ''https://assets.mythweaver.co/uu.png''])"
    by code_simp
  have k: "truthy (apiKey (env_with always_success))" by simp
  have s: "blob_store_ok (env_with always_success)" by simp
  have n: "count (request_of_count 2) = of_nat 2" "1 \<le> (2::nat)" by simp_all
  from all_success_first_batch [OF k s n c, of empty_world]
  have "\<exists>rows. fst (generateImage (env_with always_success) (request_of_count 2) empty_world)
                 = Inr (Some (map img_uri rows))
         \<and> length rows = 2
         \<and> images (snd (generateImage (env_with always_success) (request_of_count 2) empty_world)) = rows
         \<and> notifications (snd (generateImage (env_with always_success) (request_of_count 2) empty_world))
             = map (image_created (request_of_count 2)) rows @ [generation_done (request_of_count 2)]"
    by (auto simp: empty_world_def)
  with c e k s n(1) show ?thesis by blast
qed



text \<open>
  C3, as the claim states it, fails: the \<open>break\<close> test is
  \<open>validImageCount === request.count\<close>, which a fractional count never meets. With
  \<open>count = 5/2\<close> and a client that returns three accepted images, three rows are
  recorded.
\<close>

theorem artifacts_at_most_count_counterexample:
  "0 \<le> count (request_of_count (5 / 2))
   \<and> length (images (snd (generateImage (env_with three_each) (request_of_count (5 / 2)) empty_world))) = 3
   \<and> \<not> of_nat (length (images (snd (generateImage (env_with three_each) (request_of_count (5 / 2))
                                        empty_world)))) \<le> count (request_of_count (5 / 2))"
proof -
  let ?e = "env_with three_each" and ?r = "request_of_count (5 / 2)"
  let ?l1 = "initial_locals\<lparr>tries := 5 / 2\<rparr>"
  let ?w1 = "empty_world\<lparr>sdCalls := [(5 / 2, 0)],
                httpPosts := [generation_request ?e ?r ''fantasy-art'']\<rparr>"
  have ni: "count ?r \<notin> \<int>"
  proof
    assume "count ?r \<in> \<int>"
    then obtain z :: int where "(5 / 2 :: rat) = of_int z" by (auto elim: Ints_cases)
    then have "(of_int 5 :: rat) = of_int (2 * z)" by simp
    then have "5 = 2 * z" by (simp only: of_int_eq_iff)
    then show False by presburger
  qed
  from process_artifacts_fractional [OF blob_store_ok_env_with ni, of three_each "''fantasy-art''"
      "replicate 3 ok_artifact" "(?l1, ?w1)"]
  obtain l' w' where p: "process_artifacts ?e ?r ''fantasy-art'' (replicate 3 ok_artifact) (?l1, ?w1)
      = Inr (l', w')" and v: "validImageCount l' = 3"
    by (auto simp: initial_locals_def)
  have b: "loop_body ?e ?r ''fantasy-art'' (initial_locals, empty_world) = Completed (l', w')"
    using p by (simp add: loop_body_eq Let_def three_each_def initial_locals_def empty_world_def
                  del: process_artifacts.simps)
  from loop_body_progress [of ?r ?e initial_locals "''fantasy-art''" empty_world] b
  have "progress ?r [generation_request ?e
           (?r\<lparr>count := count ?r - of_nat (validImageCount initial_locals)\<rparr>) ''fantasy-art''] []
          (initial_locals, empty_world) (l', w')"
    by (simp add: closing_def)
  then obtain rows where r: "images w' = images empty_world @ rows"
    "validImageCount l' = validImageCount initial_locals + length rows"
    by (rule progressE)
  have d: "do_while ?e ?r ''fantasy-art'' (initial_locals, empty_world) = Completed (l', w')"
    by (rule do_while_stop [OF b]) (simp add: v)
  have "length (images (snd (generateImage ?e ?r empty_world))) = 3"
    using d r v by (simp add: generateImage_with_key initial_locals_def empty_world_def)
  then show ?thesis by simp
qed

text \<open>
  C3, amended. For every request whose count is an integer \<open>\<ge> 0\<close> and every behaviour
  of the generation client, the rows \<open>generateImage\<close> adds to the image table number at
  most \<open>request.count\<close>; and for every request with \<open>count \<ge> 0\<close>, integer or not, every
  request it posts asks for a non-negative number of images. Both hold however the run
  ends.
\<close>

theorem artifacts_at_most_count:
  "(count request \<in> \<int> \<and> 0 \<le> count request \<longrightarrow>
      (\<exists>rows. images (snd (generateImage e request w)) = images w @ rows
             \<and> of_nat (length rows) \<le> count request))
   \<and> (0 \<le> count request \<longrightarrow>
      (\<exists>ps. httpPosts (snd (generateImage e request w)) = httpPosts w @ ps
           \<and> (\<forall>p\<in>set ps. 0 \<le> samples p)))"
proof (cases "truthy (apiKey e)")
  case False
  then show ?thesis by (simp add: generateImage_def)
next
  case True
  let ?d = "do_while e request (preset_of request) (initial_locals, w)"
  obtain l' w' where st: "state_of ?d = (l', w')" by (cases "state_of ?d")
  have w': "images (snd (generateImage e request w)) = images w'
          \<and> httpPosts (snd (generateImage e request w)) = httpPosts w'"
    using True st by (cases ?d) (auto simp: generateImage_with_key)
  from do_while_progress [of request e "preset_of request" initial_locals w] st
  obtain ps where "progress request ps (closing request ?d) (initial_locals, w) (l', w')"
    by auto
  then obtain rows where r: "images w' = images w @ rows"
    "validImageCount l' = validImageCount initial_locals + length rows"
    by (rule progressE)
  have 1: "\<exists>rows. images (snd (generateImage e request w)) = images w @ rows
             \<and> of_nat (length rows) \<le> count request"
    if i: "count request \<in> \<int>" and z: "0 \<le> count request"
  proof -
    from z have "of_nat (validImageCount initial_locals) \<le> count request"
      by (simp add: initial_locals_def)
    from do_while_bound [OF i this, of e "preset_of request" w] st
    have "of_nat (validImageCount l') \<le> count request" by simp
    with r w' show ?thesis by (simp add: initial_locals_def)
  qed
  have 2: "\<exists>ps. httpPosts (snd (generateImage e request w)) = httpPosts w @ ps
           \<and> (\<forall>p\<in>set ps. 0 \<le> samples p)"
    if z: "0 \<le> count request"
  proof -
    from z have "of_nat (validImageCount initial_locals) \<le> count request"
      by (simp add: initial_locals_def)
    from do_while_posts_nonneg [OF this, of e "preset_of request" w] st w'
    show ?thesis by simp
  qed
  from 1 2 show ?thesis by blast
qed

text \<open>
  C3, amended, at a client that returns three accepted images when one is asked for: one
  row is recorded, and the one request posted asked for one image.
\<close>

theorem artifacts_at_most_count_witness:
  "count (request_of_count 1) \<in> \<int> \<and> 0 \<le> count (request_of_count 1)
   \<and> (\<exists>rows. images (snd (generateImage (env_with three_each) (request_of_count 1) empty_world)) = rows
         \<and> of_nat (length rows) \<le> (1::rat))
   \<and> (\<exists>ps. httpPosts (snd (generateImage (env_with three_each) (request_of_count 1) empty_world)) = ps
         \<and> (\<forall>p\<in>set ps. 0 \<le> samples p))
   \<and> length (images (snd (generateImage (env_with three_each) (request_of_count 1) empty_world))) = 1
   \<and> map samples (httpPosts (snd (generateImage (env_with three_each) (request_of_count 1) empty_world))) = [1]"
proof -
  have 1: "length (images (snd (generateImage (env_with three_each) (request_of_count 1) empty_world))) = 1
   \<and> map samples (httpPosts (snd (generateImage (env_with three_each) (request_of_count 1) empty_world))) = [1]"
    by code_simp
  have h: "count (request_of_count 1) \<in> \<int> \<and> 0 \<le> count (request_of_count 1)" by simp
  from artifacts_at_most_count [of "request_of_count 1" "env_with three_each" empty_world] h 1
  show ?thesis by (simp add: empty_world_def)
qed

text \<open>
  C4. When the HTTP call fails, \<open>postToStableDiffusion\<close> (called at a depth that reaches the
  call) sends the "image error" notification to the requesting user and returns
  \<open>undefined\<close>; and when the first attempt of \<open>generateImage\<close> fails so, no artifact is
  recorded and the result is \<open>undefined\<close>, not an empty list.
\<close>

theorem hard_failure_first_attempt:
  "(depth \<le> 5 \<and> axios_post e (length (httpPosts w)) (generation_request e request preset) = Rejected
      \<longrightarrow> fst (postToStableDiffusion e request preset promptHistory depth w) = Inr None
        \<and> notifications (snd (postToStableDiffusion e request preset promptHistory depth w))
            = notifications w @ [image_error request])
   \<and> (truthy (apiKey e)
        \<and> axios_post e (length (httpPosts w)) (generation_request e request (preset_of request))
            = Rejected
      \<longrightarrow> fst (generateImage e request w) = Inr None
        \<and> images (snd (generateImage e request w)) = images w
        \<and> notifications (snd (generateImage e request w)) = notifications w @ [image_error request])"
proof -
  have 1: "depth \<le> 5 \<and> axios_post e (length (httpPosts w)) (generation_request e request preset) = Rejected
      \<longrightarrow> fst (postToStableDiffusion e request preset promptHistory depth w) = Inr None
        \<and> notifications (snd (postToStableDiffusion e request preset promptHistory depth w))
            = notifications w @ [image_error request]"
    by (simp add: postToStableDiffusion_def Let_def sendWebsocketMessage_def image_error_def)
  have 2: "fst (generateImage e request w) = Inr None
        \<and> images (snd (generateImage e request w)) = images w
        \<and> notifications (snd (generateImage e request w)) = notifications w @ [image_error request]"
    if k: "truthy (apiKey e)"
      and f: "axios_post e (length (httpPosts w)) (generation_request e request (preset_of request))
                = Rejected"
  proof -
    let ?w1 = "w\<lparr>sdCalls := sdCalls w @ [(count request, 0)],
                  httpPosts := httpPosts w @ [generation_request e request (preset_of request)],
                  notifications := notifications w @ [image_error request]\<rparr>"
    have "loop_body e request (preset_of request) (initial_locals, w)
            = ReturnedUndefined (initial_locals\<lparr>tries := count request\<rparr>, ?w1)"
      using f by (simp add: loop_body_eq initial_locals_def)
    then have "do_while e request (preset_of request) (initial_locals, w)
            = ReturnedUndefined (initial_locals\<lparr>tries := count request\<rparr>, ?w1)"
      by (rule do_while_abort)
    with k show ?thesis by (simp add: generateImage_def)
  qed
  from 1 2 show ?thesis by blast
qed

text \<open>
  C4 at a client whose every call fails, for a request of two images.
\<close>

theorem hard_failure_first_attempt_witness:
  "fst (postToStableDiffusion (env_with always_failing) (request_of_count 2) ''fantasy-art'' [] 0 empty_world)
     = Inr None
   \<and> notifications (snd (postToStableDiffusion (env_with always_failing) (request_of_count 2) ''fantasy-art'' [] 0 empty_world))
       = [image_error (request_of_count 2)]
   \<and> generateImage (env_with always_failing) (request_of_count 2) empty_world
       = (Inr None,
          empty_world\<lparr>sdCalls := [(2, 0)],
            httpPosts := [generation_request (env_with always_failing) (request_of_count 2) ''fantasy-art''],
            notifications := [image_error (request_of_count 2)]\<rparr>)"
proof -
  have b: "axios_post (env_with always_failing) k p = Rejected" for k p
    by (simp add: always_failing_def)
  have d: "generateImage (env_with always_failing) (request_of_count 2) empty_world
       = (Inr None,
          empty_world\<lparr>sdCalls := [(2, 0)],
            httpPosts := [generation_request (env_with always_failing) (request_of_count 2) ''fantasy-art''],
            notifications := [image_error (request_of_count 2)]\<rparr>)"
    by code_simp
  from hard_failure_first_attempt [of 0 "env_with always_failing" empty_world "request_of_count 2" "''fantasy-art''" "[]"]
    b d
  show ?thesis by (simp add: empty_world_def)
qed

text \<open>
  C5, as the claim states it, fails in its bound: the loop runs while \<open>tries < 30\<close> with
  \<open>tries\<close> growing by \<open>count\<close>, so it makes \<open>\<lceil>30 / count\<rceil>\<close> passes. With
  \<open>count = 7\<close> and every image filtered that is 5 passes, more than \<open>30 / 7\<close>.
\<close>

theorem all_filtered_counterexample:
  "fst (generateImage (env_with always_filtered) (request_of_count 7) empty_world) = Inr (Some [])
   \<and> length (httpPosts (snd (generateImage (env_with always_filtered) (request_of_count 7) empty_world))) = 5
   \<and> \<not> of_nat (length (httpPosts (snd (generateImage (env_with always_filtered) (request_of_count 7) empty_world))))
         \<le> maxImageTries / count (request_of_count 7)
   \<and> \<not> int (length (httpPosts (snd (generateImage (env_with always_filtered) (request_of_count 7) empty_world))))
         \<le> 30 div 7
   \<and> \<not> of_nat (length (httpPosts (snd (generateImage (env_with always_filtered) (request_of_count 7) empty_world))))
           * count (request_of_count 7) \<le> maxImageTries"
  by code_simp

text \<open>
  C5, amended. For a request with \<open>count = N \<ge> 1\<close>, a key configured and a client whose
  every attempt returns only images with finish reason CONTENT_FILTERED, the loop of
  \<open>generateImage\<close> ends after exactly \<open>29 div N + 1\<close> passes (that is
  \<open>\<lceil>30 / N\<rceil>\<close>), no artifact is recorded, and the function returns the empty list
  with "filtered" as its only notification.
\<close>

theorem all_filtered_terminates:
  assumes key: "truthy (apiKey e)"
    and n: "count request = of_int N" "1 \<le> N"
    and client: "\<forall>k p. \<exists>g. axios_post e k p = Resolved (Data (Some g))
                         \<and> (\<forall>a\<in>set g. finishReason a = CONTENT_FILTERED)"
  shows "\<exists>ps. fst (generateImage e request w) = Inr (Some [])
         \<and> httpPosts (snd (generateImage e request w)) = httpPosts w @ ps
         \<and> int (length ps) = 29 div N + 1
         \<and> images (snd (generateImage e request w)) = images w
         \<and> notifications (snd (generateImage e request w))
             = notifications w @ [image_filtered request]"
proof -
  from client have c: "\<forall>k p. \<exists>g. axios_post e k p = Resolved (Data (Some g))
                              \<and> (\<forall>a\<in>set g. finishReason a \<noteq> SUCCESS)"
    by (metis finishReason.distinct(1))
  have v: "validImageCount initial_locals = 0" and t: "tries initial_locals = of_int 0"
    by (simp_all add: initial_locals_def)
  from do_while_all_filtered [OF c n v t, of "preset_of request" w]
  obtain l' w' ps where r:
    "do_while e request (preset_of request) (initial_locals, w) = Completed (l', w')"
    "validImageCount l' = 0" "urls l' = urls initial_locals"
    "images w' = images w" "notifications w' = notifications w"
    "httpPosts w' = httpPosts w @ ps"
    "int (length ps) = (29 - 0) div N + 1"
    by auto
  show ?thesis
    apply (rule exI [of _ ps])
    using r key n by (simp add: generateImage_with_key initial_locals_def)
qed

text \<open>
  C5, amended, for seven images and a client whose images are all filtered: five passes.
\<close>

theorem all_filtered_terminates_witness:
  "(\<forall>k p. \<exists>g. axios_post (env_with always_filtered) k p = Resolved (Data (Some g))
                         \<and> (\<forall>a\<in>set g. finishReason a = CONTENT_FILTERED))
   \<and> (\<exists>ps. fst (generateImage (env_with always_filtered) (request_of_count 7) empty_world) = Inr (Some [])
         \<and> httpPosts (snd (generateImage (env_with always_filtered) (request_of_count 7) empty_world)) = ps
         \<and> int (length ps) = 5
         \<and> images (snd (generateImage (env_with always_filtered) (request_of_count 7) empty_world)) = []
         \<and> notifications (snd (generateImage (env_with always_filtered) (request_of_count 7) empty_world))
             = [image_filtered (request_of_count 7)])"
proof -
  have c: "\<forall>k p. \<exists>g. axios_post (env_with always_filtered) k p = Resolved (Data (Some g))
                         \<and> (\<forall>a\<in>set g. finishReason a = CONTENT_FILTERED)"
    by (simp add: always_filtered_def filtered_artifact_def)
  have k: "truthy (apiKey (env_with always_filtered))" by simp
  have n: "count (request_of_count 7) = of_int 7" "1 \<le> (7::int)" by simp_all
  from all_filtered_terminates [OF k n c, of empty_world] c
  show ?thesis by (simp add: empty_world_def)
qed

text \<open>
  C6. Every pass through the loop body adds the originally requested count to \<open>tries\<close>,
  while the batch it asks for is the shrinking remainder: after two passes from any state,
  \<open>tries\<close> has grown by twice \<open>request.count\<close> and the two requests sent asked for
  \<open>request.count\<close> less the images accepted so far. With \<open>count = 10\<close> and three
  images accepted in the first batch, the second batch asks for 7 and \<open>tries\<close> is 20.
\<close>

theorem tries_counts_requested:
  assumes "loop_body e request preset (l, w) = Completed (l1, w1)"
    and "loop_body e request preset (l1, w1) = Completed (l2, w2)"
  shows "tries l1 = tries l + count request \<and> tries l2 = tries l + 2 * count request
       \<and> map samples (drop (length (httpPosts w)) (httpPosts w2))
           = [count request - of_nat (validImageCount l), count request - of_nat (validImageCount l1)]"
proof -
  from loop_body_tries [of e request preset l w] loop_body_tries [of e request preset l1 w1] assms
  have t: "tries l1 = tries l + count request \<and> tries l2 = tries l + 2 * count request" by simp
  from loop_body_progress [of request e l preset w] loop_body_progress [of request e l1 preset w1] assms
  have "httpPosts w2 = httpPosts w @
          [generation_request e (request\<lparr>count := count request - of_nat (validImageCount l)\<rparr>) preset,
           generation_request e (request\<lparr>count := count request - of_nat (validImageCount l1)\<rparr>) preset]"
    by (auto simp: progress_def)
  with t show ?thesis by (simp add: generation_request_def)
qed

text \<open>
  C6 in the scenario of the claim: ten images requested, three accepted in the first batch;
  \<open>tries\<close> is 20 after two passes, not 13, and the batches asked for 10 and 7.
\<close>

theorem tries_counts_requested_witness:
  "\<exists>l1 w1 l2 w2.
      loop_body (env_with three_then_all) (request_of_count 10) ''fantasy-art'' (initial_locals, empty_world)
        = Completed (l1, w1)
    \<and> loop_body (env_with three_then_all) (request_of_count 10) ''fantasy-art'' (l1, w1)
        = Completed (l2, w2)
    \<and> validImageCount l1 = 3 \<and> tries l1 = 10 \<and> tries l2 = 20 \<and> tries l2 \<noteq> 13
    \<and> map samples (httpPosts w2) = [10, 7]"
proof -
  let ?e = "env_with three_then_all" and ?r = "request_of_count 10"
  let ?lw = "(initial_locals\<lparr>tries := 10\<rparr>,
              empty_world\<lparr>sdCalls := [(10, 0)],
                httpPosts := [generation_request ?e ?r ''fantasy-art'']\<rparr>)"
  let ?arts = "replicate 3 ok_artifact"
  have "of_nat (validImageCount (fst ?lw) + length ?arts) \<le> count ?r"
    by (simp add: initial_locals_def)
  from process_artifacts_all [OF blob_store_ok_env_with this, of three_then_all "''fantasy-art''"]
  obtain lw1 where p: "process_artifacts ?e ?r ''fantasy-art'' ?arts ?lw = Inr lw1"
    and v1: "validImageCount (fst lw1) = validImageCount (fst ?lw) + length ?arts"
    by blast
  obtain l1 w1 where lw1: "lw1 = (l1, w1)" by (cases lw1)
  from v1 lw1 have v: "validImageCount l1 = 3" by (simp add: initial_locals_def)
  have 1: "loop_body ?e ?r ''fantasy-art'' (initial_locals, empty_world) = Completed (l1, w1)"
    using p lw1
    by (simp add: loop_body_eq Let_def three_then_all_def initial_locals_def
          empty_world_def del: process_artifacts.simps)
  from loop_body_progress [of ?r ?e initial_locals "''fantasy-art''" empty_world] 1
  have "length (httpPosts w1) = 1"
    by (auto simp: progress_def empty_world_def)
  moreover obtain lw2 where "process_artifacts ?e ?r ''fantasy-art''
       (replicate (nat \<lfloor>samples (generation_request ?e (request_of_count (10 - of_nat (validImageCount l1))) ''fantasy-art'')\<rfloor>) ok_artifact)
       (l1\<lparr>tries := tries l1 + 10\<rparr>,
        w1\<lparr>sdCalls := sdCalls w1 @ [(10 - of_nat (validImageCount l1), 0)],
           httpPosts := httpPosts w1 @ [generation_request ?e (request_of_count (10 - of_nat (validImageCount l1))) ''fantasy-art'']\<rparr>)
       = Inr lw2"
    using process_artifacts_ok [OF blob_store_ok_env_with] by blast
  ultimately have "loop_body ?e ?r ''fantasy-art'' (l1, w1) = Completed lw2"
    by (simp add: loop_body_eq Let_def three_then_all_def del: process_artifacts.simps)
  then obtain l2 w2 where 2: "loop_body ?e ?r ''fantasy-art'' (l1, w1) = Completed (l2, w2)"
    by (cases lw2) simp
  from tries_counts_requested [OF 1 2] v
  have 3: "tries l1 = 10 \<and> tries l2 = 20 \<and> tries l2 \<noteq> 13 \<and> map samples (httpPosts w2) = [10, 7]"
    by (simp add: initial_locals_def empty_world_def)
  show ?thesis
    apply (rule exI [of _ l1])
    apply (rule exI [of _ w1])
    apply (rule exI [of _ l2])
    apply (rule exI [of _ w2])
    apply (intro conjI)
          apply (rule 1)
         apply (rule 2)
        apply (rule v)
       apply (simp_all add: 3)
    done
qed




text \<open>
  C8, as the claim states it, fails: the loop is a \<open>do ... while\<close>, so with
  \<open>count = 0\<close> its body still runs once and posts a request for 0 images. When that call
  fails, the result is \<open>undefined\<close> after an "image error" notification, not an empty
  list after "generation done"; when it succeeds, the post itself is a visible effect.
\<close>

theorem count_zero_counterexample:
  "fst (generateImage (env_with always_failing) (request_of_count 0) empty_world) = Inr None
   \<and> map event (notifications (snd (generateImage (env_with always_failing) (request_of_count 0) empty_world)))
       = [ImageError]
   \<and> map samples (httpPosts (snd (generateImage (env_with always_success) (request_of_count 0) empty_world)))
       = [0]"
  by code_simp

text \<open>
  C8, amended. With \<open>count = 0\<close> and a key configured, \<open>generateImage\<close> calls the
  generation client exactly once, asking for 0 images, and adds no artifact whatever the
  call returns. When the call resolves with an array of artifacts, the result is the empty
  list and "generation done" is the only notification; when it is rejected, the result is
  \<open>undefined\<close> and "image error" is the only notification; when it resolves without an
  array of artifacts, a TypeError reaches the caller and nothing is notified.
\<close>

theorem count_zero_one_call:
  assumes "count request = 0" and "truthy (apiKey e)"
  shows "generateImage e request w =
     (let p = generation_request e request (preset_of request);
          w1 = w\<lparr>sdCalls := sdCalls w @ [(0, 0)], httpPosts := httpPosts w @ [p]\<rparr>
      in case axios_post e (length (httpPosts w)) p of
           Rejected \<Rightarrow> (Inr None, w1\<lparr>notifications := notifications w @ [image_error request]\<rparr>)
         | Resolved NoData \<Rightarrow> (Inl TypeError, w1)
         | Resolved (Data None) \<Rightarrow> (Inl TypeError, w1)
         | Resolved (Data (Some g)) \<Rightarrow>
             (Inr (Some []), w1\<lparr>notifications := notifications w @ [generation_done request]\<rparr>))"
proof -
  have rq: "request\<lparr>count := 0\<rparr> = request"
    using assms(1) by (metis request_count_same)
  let ?p = "generation_request e request (preset_of request)"
  let ?w1 = "w\<lparr>sdCalls := sdCalls w @ [(0, 0)], httpPosts := httpPosts w @ [?p]\<rparr>"
  let ?l1 = "initial_locals\<lparr>tries := 0\<rparr>"
  have b: "loop_body e request (preset_of request) (initial_locals, w) =
      (case axios_post e (length (httpPosts w)) ?p of
         Rejected \<Rightarrow> ReturnedUndefined (?l1, ?w1\<lparr>notifications := notifications w @ [image_error request]\<rparr>)
       | Resolved NoData \<Rightarrow> Threw TypeError (?l1, ?w1)
       | Resolved (Data None) \<Rightarrow> Threw TypeError (?l1, ?w1)
       | Resolved (Data (Some g)) \<Rightarrow> Completed (?l1, ?w1))"
    using assms(1)
    by (simp add: loop_body_eq initial_locals_def process_artifacts_full rq
          split: axios_result.splits response_data.splits option.splits)
  show ?thesis
  proof (cases "axios_post e (length (httpPosts w)) ?p")
    case Rejected
    with b have "do_while e request (preset_of request) (initial_locals, w)
        = ReturnedUndefined (?l1, ?w1\<lparr>notifications := notifications w @ [image_error request]\<rparr>)"
      by (simp add: do_while_abort)
    with Rejected assms(2) show ?thesis by (simp add: generateImage_with_key)
  next
    case (Resolved d)
    show ?thesis
    proof (cases d)
      case NoData
      with b Resolved have "do_while e request (preset_of request) (initial_locals, w)
          = Threw TypeError (?l1, ?w1)"
        by (simp add: do_while_threw)
      with Resolved NoData assms(2) show ?thesis by (simp add: generateImage_with_key)
    next
      case (Data a)
      show ?thesis
      proof (cases a)
        case None
        with b Resolved Data have "do_while e request (preset_of request) (initial_locals, w)
            = Threw TypeError (?l1, ?w1)"
          by (simp add: do_while_threw)
        with Resolved Data None assms(2) show ?thesis by (simp add: generateImage_with_key)
      next
        case (Some g)
        with b Resolved Data
        have "loop_body e request (preset_of request) (initial_locals, w) = Completed (?l1, ?w1)"
          by simp
        then have "do_while e request (preset_of request) (initial_locals, w) = Completed (?l1, ?w1)"
          by (rule do_while_stop) (simp add: assms(1) initial_locals_def)
        with Resolved Data Some assms show ?thesis
          by (simp add: generateImage_with_key initial_locals_def)
      qed
    qed
  qed
qed

text \<open>
  C8, amended, at a client that succeeds.
\<close>

theorem count_zero_one_call_witness:
  "generateImage (env_with always_success) (request_of_count 0) empty_world =
     (Inr (Some []),
      empty_world\<lparr>sdCalls := [(0, 0)],
        httpPosts := [generation_request (env_with always_success) (request_of_count 0) ''fantasy-art''],
        notifications := [generation_done (request_of_count 0)]\<rparr>)"
proof -
  have a: "truthy (apiKey (env_with always_success))" by simp
  have b: "count (request_of_count 0) = 0" by simp
  from count_zero_one_call [OF b a, of empty_world] show ?thesis
    by (simp add: always_success_def empty_world_def)
qed

text \<open>
  C9. In every run of \<open>generateImage\<close>, however it ends, each invocation of
  \<open>postToStableDiffusion\<close> has depth 0; a response returned at depth 0 has no
  \<open>updatedPrompt\<close>; and no "prompt rephrased" notification is sent.
\<close>

theorem prompt_never_rephrased:
  "(\<exists>cs ns.
       sdCalls (snd (generateImage e request w)) = sdCalls w @ cs
     \<and> (\<forall>c\<in>set cs. snd c = 0)
     \<and> notifications (snd (generateImage e request w)) = notifications w @ ns
     \<and> (\<forall>n\<in>set ns. event n \<noteq> ImagePromptRephrased))
   \<and> (\<forall>rq preset h w0 g w1.
         postToStableDiffusion e rq preset h 0 w0 = (Inr (Some g), w1) \<longrightarrow> updatedPrompt g = None)"
proof -
  have 2: "\<forall>rq preset h w0 g w1.
         postToStableDiffusion e rq preset h 0 w0 = (Inr (Some g), w1) \<longrightarrow> updatedPrompt g = None"
    by (auto simp: postToStableDiffusion_def Let_def
          split: axios_result.splits response_data.splits)
  have 1: "\<exists>cs ns.
       sdCalls (snd (generateImage e request w)) = sdCalls w @ cs
     \<and> (\<forall>c\<in>set cs. snd c = 0)
     \<and> notifications (snd (generateImage e request w)) = notifications w @ ns
     \<and> (\<forall>n\<in>set ns. event n \<noteq> ImagePromptRephrased)"
  proof (cases "truthy (apiKey e)")
    case False
    then show ?thesis by (simp add: generateImage_def)
  next
    case True
    let ?d = "do_while e request (preset_of request) (initial_locals, w)"
    obtain l' w' where st: "state_of ?d = (l', w')" by (cases "state_of ?d")
    from do_while_progress [of request e "preset_of request" initial_locals w] st
    obtain ps where "progress request ps (closing request ?d) (initial_locals, w) (l', w')"
      by auto
    then obtain rows where f:
      "sdCalls w' = sdCalls w @ map (\<lambda>p. (samples p, 0)) ps"
      "notifications w' = notifications w @ map (image_created request) rows @ closing request ?d"
      by (rule progressE)
    show ?thesis
    proof (cases ?d)
      case (Threw x left)
      with st have a: "left = (l', w')" by simp
      from f Threw a True show ?thesis
        by (auto simp: generateImage_with_key closing_def image_created_def)
    next
      case (ReturnedUndefined left)
      with st have a: "left = (l', w')" by simp
      from f ReturnedUndefined a True show ?thesis
        by (auto simp: generateImage_with_key closing_def image_created_def image_error_def)
    next
      case (Completed left)
      with st have a: "left = (l', w')" by simp
      from f Completed a True show ?thesis
        by (auto simp: generateImage_with_key closing_def image_created_def image_filtered_def
              generation_done_def)
    qed
  qed
  from 1 2 show ?thesis by blast
qed

text \<open>
  C9 for fifteen images and a client whose images are all filtered: two calls, both at
  depth 0.
\<close>

theorem prompt_never_rephrased_witness:
  "map snd (sdCalls (snd (generateImage (env_with always_filtered) (request_of_count 15) empty_world)))
     = [0, 0]
   \<and> map event (notifications (snd (generateImage (env_with always_filtered) (request_of_count 15) empty_world)))
     = [ImageFiltered]
   \<and> (\<exists>cs ns.
       sdCalls (snd (generateImage (env_with always_filtered) (request_of_count 15) empty_world)) = cs
     \<and> (\<forall>c\<in>set cs. snd c = 0)
     \<and> notifications (snd (generateImage (env_with always_filtered) (request_of_count 15) empty_world)) = ns
     \<and> (\<forall>n\<in>set ns. event n \<noteq> ImagePromptRephrased))"
proof -
  have 1: "map snd (sdCalls (snd (generateImage (env_with always_filtered) (request_of_count 15) empty_world)))
     = [0, 0]
   \<and> map event (notifications (snd (generateImage (env_with always_filtered) (request_of_count 15) empty_world)))
     = [ImageFiltered]"
    by code_simp
  from prompt_never_rephrased [of "env_with always_filtered" "request_of_count 15" empty_world] 1
  show ?thesis by (simp add: empty_world_def)
qed

text \<open>
  C10. Let the loop of \<open>generateImage\<close> have made \<open>n\<close> passes that ran to their end and
  left it going, with \<open>k\<close> images accepted so far, and let the HTTP call of the next pass
  fail. Then \<open>generateImage\<close> returns \<open>undefined\<close>; the \<open>k\<close> rows are still in the
  image table and the \<open>k\<close> blobs still written; their URIs sit in the local \<open>urls\<close> and
  are not returned; and the notifications sent are the \<open>k\<close> "image created" followed by
  "image error", so neither "generation done" nor "filtered".
\<close>

theorem abort_keeps_artifacts:
  assumes key: "truthy (apiKey e)"
    and passes: "after_passes e request (preset_of request) n (initial_locals, w) = Some (l, w1)"
    and fails: "axios_post e (length (httpPosts w1))
                  (generation_request e
                     (request\<lparr>count := count request - of_nat (validImageCount l)\<rparr>)
                     (preset_of request)) = Rejected"
  shows "fst (generateImage e request w) = Inr None
       \<and> (\<exists>rows fs bs.
              validImageCount l = length rows \<and> urls l = map img_uri rows
            \<and> images (snd (generateImage e request w)) = images w @ rows
            \<and> fileWrites (snd (generateImage e request w)) = fileWrites w @ fs
            \<and> bucketPuts (snd (generateImage e request w)) = bucketPuts w @ bs
            \<and> length fs + length bs = length rows
            \<and> notifications (snd (generateImage e request w))
                = notifications w @ map (image_created request) rows @ [image_error request])"
proof -
  let ?p = "generation_request e (request\<lparr>count := count request - of_nat (validImageCount l)\<rparr>)
              (preset_of request)"
  let ?w2 = "w1\<lparr>sdCalls := sdCalls w1 @ [(count request - of_nat (validImageCount l), 0)],
                 httpPosts := httpPosts w1 @ [?p],
                 notifications := notifications w1 @ [image_error request]\<rparr>"
  let ?l2 = "l\<lparr>tries := tries l + count request\<rparr>"
  have "loop_body e request (preset_of request) (l, w1) = ReturnedUndefined (?l2, ?w2)"
    using fails by (simp add: loop_body_eq)
  then have "do_while e request (preset_of request) (l, w1) = ReturnedUndefined (?l2, ?w2)"
    by (rule do_while_abort)
  with after_passes_do_while [OF passes]
  have d: "do_while e request (preset_of request) (initial_locals, w) = ReturnedUndefined (?l2, ?w2)"
    by simp
  with key have g: "generateImage e request w = (Inr None, ?w2)"
    by (simp add: generateImage_with_key)
  from after_passes_progress [OF passes] obtain ps where
    "progress request ps [] (initial_locals, w) (l, w1)" by blast
  then obtain rows fs bs where r:
    "images w1 = images w @ rows" "urls l = urls initial_locals @ map img_uri rows"
    "validImageCount l = validImageCount initial_locals + length rows"
    "notifications w1 = notifications w @ map (image_created request) rows @ []"
    "fileWrites w1 = fileWrites w @ fs" "bucketPuts w1 = bucketPuts w @ bs"
    "length fs + length bs = length rows"
    by (rule progressE)
  show ?thesis
    unfolding g
    apply (rule conjI)
     apply simp
    apply (rule exI [of _ rows])
    apply (rule exI [of _ fs])
    apply (rule exI [of _ bs])
    using r by (simp add: initial_locals_def)
qed

text \<open>
  C10 with \<open>n = 1\<close> and \<open>k = 1\<close>: two images requested, one accepted in the first
  batch, the second call fails.
\<close>

theorem abort_keeps_artifacts_witness:
  "(\<exists>l w1. after_passes (env_with one_then_failing) (request_of_count 2) ''fantasy-art'' 1
              (initial_locals, empty_world) = Some (l, w1)
          \<and> validImageCount l = 1
          \<and> axios_post (env_with one_then_failing) (length (httpPosts w1))
              (generation_request (env_with one_then_failing) (request_of_count (2 - 1)) ''fantasy-art'')
            = Rejected)
   \<and> fst (generateImage (env_with one_then_failing) (request_of_count 2) empty_world) = Inr None
   \<and> map img_uri (images (snd (generateImage (env_with one_then_failing) (request_of_count 2) empty_world)))
       = [''https://assets.mythweaver.co/u.png'']
   \<and> map Key (bucketPuts (snd (generateImage (env_with one_then_failing) (request_of_count 2) empty_world)))
       = [''u.png'']
   \<and> map event (notifications (snd (generateImage (env_with one_then_failing) (request_of_count 2) empty_world)))
       = [ImageCreated, ImageError]"
proof -
  let ?e = "env_with one_then_failing" and ?r = "request_of_count 2"
  have "case after_passes ?e ?r ''fantasy-art'' (Suc 0) (initial_locals, empty_world) of
          None \<Rightarrow> False
        | Some (l, w1) \<Rightarrow> validImageCount l = 1 \<and> length (httpPosts w1) = 1"
    by code_simp
  then obtain l w1 where a: "after_passes ?e ?r (preset_of ?r) 1 (initial_locals, empty_world) = Some (l, w1)"
    and v: "validImageCount l = 1" and h: "length (httpPosts w1) = 1"
    by (auto split: option.splits)
  have f: "axios_post ?e (length (httpPosts w1))
             (generation_request ?e (?r\<lparr>count := count ?r - of_nat (validImageCount l)\<rparr>) (preset_of ?r))
           = Rejected"
    using h by (simp add: one_then_failing_def)
  from abort_keeps_artifacts [OF truthy_apiKey_env_with a f]
  have 1: "fst (generateImage ?e ?r empty_world) = Inr None" by blast
  have 2: "map img_uri (images (snd (generateImage ?e ?r empty_world)))
       = [''https://assets.mythweaver.co/u.png'']
   \<and> map Key (bucketPuts (snd (generateImage ?e ?r empty_world))) = [''u.png'']
   \<and> map event (notifications (snd (generateImage ?e ?r empty_world)))
       = [ImageCreated, ImageError]"
    by code_simp
  have 3: "\<exists>l w1. after_passes ?e ?r ''fantasy-art'' 1 (initial_locals, empty_world) = Some (l, w1)
          \<and> validImageCount l = 1
          \<and> axios_post ?e (length (httpPosts w1))
              (generation_request ?e (request_of_count (2 - 1)) ''fantasy-art'') = Rejected"
    using a v f by (intro exI [of _ l] exI [of _ w1]) simp
  from 1 2 3 show ?thesis by blast
qed

end
